theory Spec2Isabelle
  imports Main "HOL-Library.Word"
begin

unbundle bit_operations_syntax

section \<open>Data model\<close>

text \<open>
  The shell works on bytes (C \<open>char\<close>); only equality with character constants and the
  two \<open>ctype.h\<close> predicates are ever applied to them, so a byte is an \<open>8 word\<close>.
\<close>

type_synonym byte = "8 word"

text \<open>
  Modelled from the spec: the header \<open>esh.h\<close> with the compile-time configuration is not
  part of the sources at hand. The three macros the code uses (\<open>ESH_BUFFER_LEN\<close>,
  \<open>ESH_ARGC_MAX\<close>, \<open>ESH_PROMPT\<close>) are therefore parameters of every operation. The
  prompt is the content of the string literal before its terminating NUL.
\<close>

record config =
  ESH_BUFFER_LEN :: nat
  ESH_ARGC_MAX :: nat
  ESH_PROMPT :: "byte list"

text \<open>
  \<open>esh->overflow\<close> is either the built-in handler or one supplied by the embedder;
  \<open>esh_init\<close> and \<open>esh_register_overflow_callback\<close> never leave it NULL.
\<close>

datatype overflow_hook = Internal_overflow | User_overflow

text \<open>
  Modelled from the spec: \<open>struct esh\<close> is declared in the missing header. Its fields are
  the ones \<open>esh.c\<close> accesses; \<open>buffer\<close> is an array of \<open>ESH_BUFFER_LEN + 1\<close> bytes and
  \<open>argv\<close> an array of \<open>ESH_ARGC_MAX\<close> pointers (see \<open>wf\<close> below). A pointer stored in
  \<open>argv\<close> always has the form \<open>&esh->buffer[i]\<close>, so it is kept as the index \<open>i\<close>;
  \<open>None\<close> is the NULL pointer left by \<open>memset\<close>. For the hooks \<open>callback\<close> and
  \<open>print\<close> only "is a function registered" matters: calling a NULL hook is a fault.
\<close>

record esh =
  buffer :: "byte list"
  argv :: "nat option list"
  cnt :: nat
  flags :: byte
  callback :: bool
  print :: bool
  overflow :: overflow_hook

text \<open>
  Modelled from the spec: the declared array sizes and the range of \<open>cnt\<close>
  (\<open>0 .. ESH_BUFFER_LEN + 1\<close>, the last value being the overflow sentinel).
\<close>

definition wf :: "config \<Rightarrow> esh \<Rightarrow> bool" where
  "wf c s = (length (buffer s) = ESH_BUFFER_LEN c + 1 \<and> length (argv s) = ESH_ARGC_MAX c
             \<and> cnt s \<le> ESH_BUFFER_LEN c + 1)"

text \<open>\<open>enum esh_flags\<close>\<close>

definition IN_ESCAPE :: byte where
  "IN_ESCAPE = 0x01"

definition IN_BRACKET_ESCAPE :: byte where
  "IN_BRACKET_ESCAPE = 0x02"

text \<open>Neither escape bit is set: state A of the escape filter.\<close>

definition no_escape :: "esh \<Rightarrow> bool" where
  "no_escape s = (flags s AND (IN_ESCAPE OR IN_BRACKET_ESCAPE) = 0)"

section \<open>Effects: faults and the trace of hook calls\<close>

text \<open>
  What C leaves undefined is a fault of the model: an array access outside the declared
  array, and a call through a NULL hook. Everything the shell does to the outside world is
  a call of one of the three hooks; a run returns the list of these calls in order. The
  hooks are assumed not to modify the context they are handed. A \<open>Callback\<close> event
  carries \<open>argc\<close>, the pointer array and the bytes of the buffer the pointers refer to; an
  \<open>Overflow\<close> event the buffer passed; a \<open>Print\<close> event the C string passed.
\<close>

datatype fault = Out_of_bounds nat | Argv_out_of_bounds nat | Null_call

datatype event =
    is_Print: Print "byte list"
  | is_Callback: Callback nat "nat option list" "byte list"
  | is_Overflow: Overflow "byte list"

type_synonym 'a result = "fault + event list \<times> 'a"

definition bnd :: "'a result \<Rightarrow> ('a \<Rightarrow> 'b result) \<Rightarrow> 'b result" where
  "bnd m f = (case m of
      Inl e \<Rightarrow> Inl e
    | Inr (es, x) \<Rightarrow> (case f x of Inl e \<Rightarrow> Inl e | Inr (es', y) \<Rightarrow> Inr (es @ es', y)))"

definition store :: "byte list \<Rightarrow> nat \<Rightarrow> byte \<Rightarrow> fault + byte list" where
  "store b i v = (if i < length b then Inr (b[i := v]) else Inl (Out_of_bounds i))"

definition store_ptr :: "nat option list \<Rightarrow> nat \<Rightarrow> nat \<Rightarrow> fault + nat option list" where
  "store_ptr a k p = (if k < length a then Inr (a[k := Some p]) else Inl (Argv_out_of_bounds k))"

text \<open>The bytes of a C string: everything before the first NUL.\<close>

definition c_string :: "byte list \<Rightarrow> byte list" where
  "c_string b = takeWhile (\<lambda>x. x \<noteq> 0) b"

definition bytes_of :: "string \<Rightarrow> byte list" where
  "bytes_of str = map (\<lambda>ch. of_nat (of_char ch)) str"

text \<open>\<open>isspace\<close> and \<open>isalpha\<close> of \<open>ctype.h\<close> in the "C" locale; a byte above
  \<open>0x7F\<close> is in neither class.\<close>

definition isspace :: "byte \<Rightarrow> bool" where
  "isspace x = (x = 0x20 \<or> x = 0x09 \<or> x = 0x0A \<or> x = 0x0B \<or> x = 0x0C \<or> x = 0x0D)"

definition isalpha :: "byte \<Rightarrow> bool" where
  "isalpha x = ((0x41 \<le> x \<and> x \<le> 0x5A) \<or> (0x61 \<le> x \<and> x \<le> 0x7A))"

section \<open>Initialisation and registration\<close>

definition esh_init :: "config \<Rightarrow> esh" where
  "esh_init c = \<lparr>buffer = replicate (ESH_BUFFER_LEN c + 1) 0,
                 argv = replicate (ESH_ARGC_MAX c) None,
                 cnt = 0, flags = 0, callback = False, print = False,
                 overflow = Internal_overflow\<rparr>"

text \<open>The boolean argument of the three registration functions says whether the function
  pointer passed is non-NULL.\<close>

definition esh_register_callback :: "esh \<Rightarrow> bool \<Rightarrow> esh" where
  "esh_register_callback s cb = s\<lparr>callback := cb\<rparr>"

definition esh_register_print :: "esh \<Rightarrow> bool \<Rightarrow> esh" where
  "esh_register_print s p = s\<lparr>print := p\<rparr>"

definition esh_register_overflow_callback :: "esh \<Rightarrow> bool \<Rightarrow> esh" where
  "esh_register_overflow_callback s ov =
     s\<lparr>overflow := (if ov then User_overflow else Internal_overflow)\<rparr>"

section \<open>Output\<close>

definition call_print :: "esh \<Rightarrow> byte list \<Rightarrow> unit result" where
  "call_print s str = (if print s then Inr ([Print (c_string str)], ()) else Inl Null_call)"

definition esh_putc :: "esh \<Rightarrow> byte \<Rightarrow> unit result" where
  "esh_putc s x = call_print s [x, 0]"

fun esh_puts_F :: "esh \<Rightarrow> byte list \<Rightarrow> unit result" where
  "esh_puts_F s [] = Inr ([], ())"
| "esh_puts_F s (x # xs) =
     (if x = 0 then Inr ([], ()) else bnd (esh_putc s x) (\<lambda>_. esh_puts_F s xs))"

definition print_prompt :: "config \<Rightarrow> esh \<Rightarrow> unit result" where
  "print_prompt c s = esh_puts_F s (ESH_PROMPT c)"

definition overflow_message :: "byte list" where
  "overflow_message = [0x0A, 0x0A] @ bytes_of ''esh: command buffer overflow'' @ [0x0A]"

definition internal_overflow :: "esh \<Rightarrow> byte list \<Rightarrow> int result" where
  "internal_overflow s buf = bnd (esh_puts_F s overflow_message) (\<lambda>_. Inr ([], 0))"

text \<open>A call through \<open>esh->overflow\<close>; the callers discard the returned value.\<close>

definition call_overflow :: "esh \<Rightarrow> byte list \<Rightarrow> unit result" where
  "call_overflow s buf =
     bnd (Inr ([Overflow buf], ()))
       (\<lambda>_. case overflow s of
              Internal_overflow \<Rightarrow> bnd (internal_overflow s buf) (\<lambda>_. Inr ([], ()))
            | User_overflow \<Rightarrow> Inr ([], ()))"

definition call_callback :: "esh \<Rightarrow> nat \<Rightarrow> unit result" where
  "call_callback s n =
     (if callback s then Inr ([Callback n (argv s) (buffer s)], ()) else Inl Null_call)"

section \<open>The tokenizer\<close>

text \<open>The local variables of \<open>make_arg_array\<close>. The counters \<open>argc\<close> (an \<open>int\<close>),
  \<open>dest\<close> and \<open>cnt\<close> (\<open>size_t\<close>) never exceed \<open>ESH_BUFFER_LEN + 1\<close>, which is taken
  to fit their types, so they are natural numbers here.\<close>

record locals =
  argc :: nat
  last_was_space :: bool
  dest :: nat
  quote :: byte

text \<open>
  One iteration of the \<open>for\<close> loop, at source index \<open>i\<close>. Note that a new token is
  recorded as \<open>&esh->buffer[i]\<close>, the read position.
\<close>

definition loop_body :: "config \<Rightarrow> nat \<Rightarrow> esh \<times> locals \<Rightarrow> fault + esh \<times> locals" where
  "loop_body c i el = (case el of (e, l) \<Rightarrow>
     if length (buffer e) \<le> i then Inl (Out_of_bounds i)
     else if quote l \<noteq> 0 then
       (if buffer e ! i = quote l then Inr (e, l\<lparr>quote := 0, last_was_space := False\<rparr>)
        else (case store (buffer e) (dest l) (buffer e ! i) of
                Inl f \<Rightarrow> Inl f
              | Inr b \<Rightarrow> Inr (e\<lparr>buffer := b\<rparr>, l\<lparr>dest := dest l + 1, last_was_space := False\<rparr>)))
     else if isspace (buffer e ! i) then
       (case store (buffer e) (dest l) 0 of
          Inl f \<Rightarrow> Inl f
        | Inr b \<Rightarrow> Inr (e\<lparr>buffer := b\<rparr>, l\<lparr>last_was_space := True, dest := dest l + 1\<rparr>))
     else
       (case (if last_was_space l
              then (case (if argc l < ESH_ARGC_MAX c then store_ptr (argv e) (argc l) i
                          else Inr (argv e)) of
                      Inl f \<Rightarrow> Inl f
                    | Inr a \<Rightarrow> Inr (e\<lparr>argv := a\<rparr>, l\<lparr>argc := argc l + 1\<rparr>))
              else Inr (e, l)) of
          Inl f \<Rightarrow> Inl f
        | Inr (e1, l1) \<Rightarrow>
            if buffer e1 ! i = 0x27 \<or> buffer e1 ! i = 0x22
            then Inr (e1, l1\<lparr>quote := buffer e1 ! i, last_was_space := False\<rparr>)
            else (case store (buffer e1) (dest l1) (buffer e1 ! i) of
                    Inl f \<Rightarrow> Inl f
                  | Inr b \<Rightarrow> Inr (e1\<lparr>buffer := b\<rparr>,
                                  l1\<lparr>dest := dest l1 + 1, last_was_space := False\<rparr>))))"

function make_arg_loop :: "config \<Rightarrow> nat \<Rightarrow> esh \<times> locals \<Rightarrow> fault + esh \<times> locals" where
  "make_arg_loop c i el =
     (if i < cnt (fst el)
      then (case loop_body c i el of Inl f \<Rightarrow> Inl f | Inr el' \<Rightarrow> make_arg_loop c (Suc i) el')
      else Inr el)"
  by pat_completeness auto
termination
  by (relation "measure (\<lambda>(c, i, el). cnt (fst el) - i)")
     (auto simp: loop_body_def store_def store_ptr_def split: if_splits sum.splits prod.splits)

declare make_arg_loop.simps [simp del]

definition make_arg_array :: "config \<Rightarrow> esh \<Rightarrow> fault + nat \<times> esh" where
  "make_arg_array c s =
     (case make_arg_loop c 0 (s, \<lparr>argc = 0, last_was_space = True, dest = 0, quote = 0\<rparr>) of
        Inl f \<Rightarrow> Inl f
      | Inr (e, l) \<Rightarrow>
          (case store (buffer e) (dest l) 0 of
             Inl f \<Rightarrow> Inl f
           | Inr b \<Rightarrow>
               (case store b (ESH_BUFFER_LEN c) 0 of
                  Inl f \<Rightarrow> Inl f
                | Inr b' \<Rightarrow> Inr (argc l, e\<lparr>buffer := b'\<rparr>))))"

section \<open>The line editor and the escape filter\<close>

definition execute_command :: "config \<Rightarrow> esh \<Rightarrow> esh result" where
  "execute_command c s =
     (case make_arg_array c s of
        Inl f \<Rightarrow> Inl f
      | Inr (n, s1) \<Rightarrow>
          bnd (if n > ESH_ARGC_MAX c then call_overflow s1 (buffer s1)
               else if n > 0 then call_callback s1 n
               else Inr ([], ()))
            (\<lambda>_. bnd (print_prompt c (s1\<lparr>cnt := 0\<rparr>)) (\<lambda>_. Inr ([], s1\<lparr>cnt := 0\<rparr>))))"

definition handle_char :: "config \<Rightarrow> esh \<Rightarrow> byte \<Rightarrow> esh result" where
  "handle_char c s x =
     (let is_bksp = (x = 8 \<or> x = 127) in
      if cnt s > ESH_BUFFER_LEN c \<or> (cnt s = ESH_BUFFER_LEN c \<and> \<not> is_bksp) then
        (case store (buffer s) (ESH_BUFFER_LEN c) 0 of
           Inl f \<Rightarrow> Inl f
         | Inr b \<Rightarrow>
             bnd (call_overflow (s\<lparr>cnt := ESH_BUFFER_LEN c + 1, buffer := b\<rparr>) b)
               (\<lambda>_. Inr ([], s\<lparr>cnt := ESH_BUFFER_LEN c + 1, buffer := b\<rparr>)))
      else if is_bksp then
        (if cnt s \<noteq> 0
         then bnd (call_print s [0x08, 0x20, 0x08, 0]) (\<lambda>_. Inr ([], s\<lparr>cnt := cnt s - 1\<rparr>))
         else Inr ([], s))
      else
        bnd (esh_putc s x)
          (\<lambda>_. case store (buffer s) (cnt s) x of
                 Inl f \<Rightarrow> Inl f
               | Inr b \<Rightarrow> Inr ([], s\<lparr>buffer := b, cnt := cnt s + 1\<rparr>)))"

definition esh_rx :: "config \<Rightarrow> esh \<Rightarrow> byte \<Rightarrow> esh result" where
  "esh_rx c s x =
     (if flags s AND IN_BRACKET_ESCAPE \<noteq> 0 then
        (if isalpha x
         then Inr ([], s\<lparr>flags := flags s AND NOT (IN_ESCAPE OR IN_BRACKET_ESCAPE)\<rparr>)
         else Inr ([], s))
      else if flags s AND IN_ESCAPE \<noteq> 0 then
        (if x = 0x5B \<or> x = 0x4F
         then Inr ([], s\<lparr>flags := flags s OR IN_BRACKET_ESCAPE\<rparr>)
         else Inr ([], s\<lparr>flags := flags s AND NOT IN_ESCAPE\<rparr>))
      else if x = 0 then Inr ([], s)
      else if x = 0x1B then Inr ([], s\<lparr>flags := flags s OR IN_ESCAPE\<rparr>)
      else if x = 0x0A then bnd (esh_putc s x) (\<lambda>_. execute_command c s)
      else handle_char c s x)"

text \<open>The embedder calls \<open>esh_rx\<close> once per received byte, in order.\<close>

fun feed :: "config \<Rightarrow> esh \<Rightarrow> byte list \<Rightarrow> esh result" where
  "feed c s [] = Inr ([], s)"
| "feed c s (x # xs) = bnd (esh_rx c s x) (\<lambda>s'. feed c s' xs)"

section \<open>Derived notions used in the statements\<close>

text \<open>
  The events of one call through \<open>esh->overflow\<close> with buffer \<open>buf\<close>: the call itself
  and, for the built-in handler, the diagnostic it prints byte by byte.
\<close>

definition overflow_events :: "esh \<Rightarrow> byte list \<Rightarrow> event list" where
  "overflow_events s buf =
     Overflow buf # (case overflow s of
                       Internal_overflow \<Rightarrow> map (\<lambda>x. Print [x]) (c_string overflow_message)
                     | User_overflow \<Rightarrow> [])"

text \<open>A small configuration and a freshly initialised shell with both hooks registered,
  used to instantiate the theorems below.\<close>

definition example_config :: config where
  "example_config = \<lparr>ESH_BUFFER_LEN = 8, ESH_ARGC_MAX = 3, ESH_PROMPT = bytes_of ''% ''\<rparr>"

definition example_shell :: esh where
  "example_shell =
     esh_register_print (esh_register_callback (esh_init example_config) True) True"

text \<open>The example shell after eight bytes have been typed: the buffer is exactly full.
  The slot behind the eight bytes holds a stale non-zero byte.\<close>

definition full_shell :: esh where
  "full_shell = example_shell\<lparr>buffer := bytes_of ''abcdefgh'' @ [0x7A], cnt := 8\<rparr>"

subsection \<open>The tokenizer as a function of the line\<close>

text \<open>
  A second description of the tokenizer, independent of the in-place loop and of
  \<open>ESH_ARGC_MAX\<close>: what one input byte \<open>x\<close> contributes when the active quote
  character is \<open>q\<close> (0 for none) and \<open>lws\<close> says whether the previous byte was an
  unquoted space. \<open>tok_out\<close> is the sequence of bytes written, \<open>tok_starts\<close> the list of
  source indices at which a token begins; its length is the true number of tokens.
\<close>

definition tok_quote :: "byte \<Rightarrow> byte \<Rightarrow> byte" where
  "tok_quote q x =
     (if q \<noteq> 0 then (if x = q then 0 else q)
      else if isspace x then 0
      else if x = 0x27 \<or> x = 0x22 then x else 0)"

definition tok_emit :: "byte \<Rightarrow> byte \<Rightarrow> byte list" where
  "tok_emit q x =
     (if q \<noteq> 0 then (if x = q then [] else [x])
      else if isspace x then [0]
      else if x = 0x27 \<or> x = 0x22 then [] else [x])"

definition tok_space :: "byte \<Rightarrow> byte \<Rightarrow> bool" where
  "tok_space q x = (q = 0 \<and> isspace x)"

definition tok_start :: "bool \<Rightarrow> byte \<Rightarrow> byte \<Rightarrow> bool" where
  "tok_start lws q x = (q = 0 \<and> \<not> isspace x \<and> lws)"

primrec tok_out :: "byte \<Rightarrow> byte list \<Rightarrow> byte list" where
  "tok_out q [] = []"
| "tok_out q (x # xs) = tok_emit q x @ tok_out (tok_quote q x) xs"

primrec tok_starts :: "nat \<Rightarrow> bool \<Rightarrow> byte \<Rightarrow> byte list \<Rightarrow> nat list" where
  "tok_starts i lws q [] = []"
| "tok_starts i lws q (x # xs) =
     (if tok_start lws q x then [i] else [])
       @ tok_starts (Suc i) (tok_space q x) (tok_quote q x) xs"

definition token_starts :: "byte list \<Rightarrow> nat list" where
  "token_starts line = tok_starts 0 True 0 line"

definition token_count :: "byte list \<Rightarrow> nat" where
  "token_count line = length (token_starts line)"

text \<open>Storing token starts \<open>ps\<close> as arguments number \<open>k\<close>, \<open>k + 1\<close>, \<dots> into an array
  of \<open>m\<close> pointers: only slots below \<open>m\<close> are written.\<close>

primrec put_args :: "nat \<Rightarrow> nat \<Rightarrow> nat list \<Rightarrow> nat option list \<Rightarrow> nat option list" where
  "put_args m k [] a = a"
| "put_args m k (p # ps) a = put_args m (Suc k) ps (if k < m then a[k := Some p] else a)"

text \<open>Replacing the bytes of \<open>b\<close> from index \<open>d\<close> on by \<open>out\<close>.\<close>

definition overwrite :: "nat \<Rightarrow> byte list \<Rightarrow> byte list \<Rightarrow> byte list" where
  "overwrite d out b = take d b @ out @ drop (d + length out) b"

text \<open>The context after tokenization, described by these functions: the output bytes
  replace the head of the buffer, followed by the final terminator at the write cursor and
  the defensive terminator at \<open>ESH_BUFFER_LEN\<close>; the token starts go to \<open>argv\<close>.\<close>

definition tokenized :: "config \<Rightarrow> esh \<Rightarrow> esh" where
  "tokenized c s =
     (let line = take (cnt s) (buffer s); out = tok_out 0 line
      in s\<lparr>buffer := (overwrite 0 out (buffer s))[length out := 0, ESH_BUFFER_LEN c := 0],
           argv := put_args (ESH_ARGC_MAX c) 0 (token_starts line) (argv s)\<rparr>)"

text \<open>The example shell holding a line of four words, one more than \<open>argv\<close> has slots.\<close>

definition many_shell :: esh where
  "many_shell = example_shell\<lparr>buffer := bytes_of ''a b c d'' @ [0, 0], cnt := 7\<rparr>"

text \<open>What the callback finds behind \<open>argv[k]\<close>: the C string starting at the stored
  pointer (\<open>None\<close> if the slot is NULL).\<close>

definition arg_string :: "esh \<Rightarrow> nat \<Rightarrow> byte list option" where
  "arg_string s k = map_option (\<lambda>p. c_string (drop p (buffer s))) (argv s ! k)"

text \<open>The two example lines of the comment above \<open>make_arg_array\<close>.\<close>

definition git_line :: "byte list" where
  "git_line = bytes_of ''git   config user.name \"My Name\"''"

definition why_line :: "byte list" where
  "why_line = bytes_of ''why\" would you ever\"'\"'\"do this??\"''"

text \<open>A configuration with room for these lines, and the shell after a given line has been
  typed into a fresh buffer.\<close>

definition demo_config :: config where
  "demo_config = \<lparr>ESH_BUFFER_LEN = 47, ESH_ARGC_MAX = 6, ESH_PROMPT = bytes_of ''% ''\<rparr>"

definition shell_holding :: "config \<Rightarrow> byte list \<Rightarrow> esh" where
  "shell_holding c line =
     (esh_register_print (esh_register_callback (esh_init c) True) True)
       \<lparr>buffer := line @ replicate (ESH_BUFFER_LEN c + 1 - length line) 0, cnt := length line\<rparr>"

text \<open>A configuration with a four-byte line buffer, and its shell with both hooks
  registered.\<close>

definition tiny_config :: config where
  "tiny_config = \<lparr>ESH_BUFFER_LEN = 4, ESH_ARGC_MAX = 3, ESH_PROMPT = bytes_of ''% ''\<rparr>"

definition tiny_shell :: esh where
  "tiny_shell = esh_register_print (esh_register_callback (esh_init tiny_config) True) True"

subsection \<open>Replaying a line\<close>

text \<open>
  The relation kept between a first run, started in \<open>s0\<close> and now in \<open>t\<close>, and a second
  run on the same bytes, started in \<open>s0'\<close> and now in \<open>t'\<close>: the two agree on everything
  but array contents; \<open>argv\<close> is still as at the start; and every buffer position either
  holds the same byte in both runs or lies at or beyond \<open>cnt\<close> and has not been written
  by either run.
\<close>

definition replay_rel :: "esh \<Rightarrow> esh \<Rightarrow> esh \<Rightarrow> esh \<Rightarrow> bool" where
  "replay_rel s0 s0' t t' =
     (cnt t = cnt t' \<and> flags t = flags t' \<and> print t = print t' \<and> callback t = callback t'
      \<and> overflow t = overflow t' \<and> length (buffer t) = length (buffer t')
      \<and> argv t = argv s0 \<and> argv t' = argv s0'
      \<and> (\<forall>p < length (buffer t).
            buffer t ! p = buffer t' ! p
            \<or> (cnt t \<le> p \<and> buffer t ! p = buffer s0 ! p \<and> buffer t' ! p = buffer s0' ! p)))"

text \<open>A line as a terminal sends it: two letters, a cursor-up key (ESC \<open>[\<close> \<open>A\<close>), a
  mistyped letter and a backspace, then a quoted argument.\<close>

definition typed_line :: "byte list" where
  "typed_line = bytes_of ''ab'' @ [0x1B, 0x5B, 0x41] @ bytes_of ''x'' @ [0x08]
                  @ bytes_of '' \"c d\"''"

text \<open>The bytes typed so far contain no NUL (a received NUL is dropped by \<open>esh_rx\<close>).\<close>

definition nul_free :: "config \<Rightarrow> esh \<Rightarrow> bool" where
  "nul_free c s = (0 \<notin> set (take (min (cnt s) (ESH_BUFFER_LEN c)) (buffer s)))"

section \<open>Basic facts\<close>

lemma and_not_self:
  fixes f :: byte
  assumes "f AND m = 0"
  shows "f AND NOT m = f"
proof -
  have "f = (f AND m) OR (f AND NOT m)"
    by (metis bit.conj_disj_distrib bit.disj_cancel_right and.right_neutral)
  then show ?thesis using assms by simp
qed

lemma and3_bits:
  fixes f :: byte
  assumes "f AND 3 = 0"
  shows "f AND 1 = 0" "f AND 2 = 0"
proof -
  have "f AND 1 = (f AND 3) AND 1" by (simp add: and.assoc)
  then show "f AND 1 = 0" using assms by simp
  have "f AND 2 = (f AND 3) AND 2" by (simp add: and.assoc)
  then show "f AND 2 = 0" using assms by simp
qed

lemma esc_bits:
  fixes f :: byte
  assumes "f AND 3 = 0"
  shows "(f OR 1) AND 2 = 0" "(f OR 1) AND 1 \<noteq> 0" "((f OR 1) OR 2) AND 2 \<noteq> 0"
    "(f OR 1) AND NOT 1 = f" "((f OR 1) OR 2) AND NOT 3 = f"
  using and3_bits[OF assms] and_not_self[of f 1] and_not_self[of f 3] assms
  by (simp_all add: bit.conj_disj_distrib2)

lemma no_escape_flags: "no_escape s \<Longrightarrow> flags s AND 3 = 0"
  by (simp add: no_escape_def IN_ESCAPE_def IN_BRACKET_ESCAPE_def)

lemma no_escape_bits:
  assumes "no_escape s"
  shows "flags s AND IN_BRACKET_ESCAPE = 0" "flags s AND IN_ESCAPE = 0"
  using and3_bits[OF no_escape_flags[OF assms]]
  by (simp_all add: IN_ESCAPE_def IN_BRACKET_ESCAPE_def)

lemma no_escape_example: "no_escape example_shell"
  by (simp add: no_escape_def example_shell_def esh_init_def esh_register_print_def
      esh_register_callback_def)

lemma esh_putc_ok: "print s \<Longrightarrow> x \<noteq> 0 \<Longrightarrow> esh_putc s x = Inr ([Print [x]], ())"
  by (simp add: esh_putc_def call_print_def c_string_def)

lemma esh_puts_F_ok:
  "print s \<Longrightarrow> esh_puts_F s str = Inr (map (\<lambda>x. Print [x]) (c_string str), ())"
  by (induction str) (simp_all add: c_string_def esh_putc_ok bnd_def)

lemma call_overflow_ok:
  "print s \<Longrightarrow> call_overflow s buf = Inr (overflow_events s buf, ())"
  by (cases "overflow s")
     (simp_all add: call_overflow_def overflow_events_def internal_overflow_def
        esh_puts_F_ok bnd_def)

lemma overflow_events_once: "length (filter is_Overflow (overflow_events s buf)) = 1"
  by (cases "overflow s") (simp_all add: overflow_events_def filter_map o_def)

lemma overflow_events_frame [simp]:
  "overflow_events (s\<lparr>cnt := n\<rparr>) = overflow_events s"
  "overflow_events (s\<lparr>buffer := b\<rparr>) = overflow_events s"
  "overflow_events (s\<lparr>argv := a\<rparr>) = overflow_events s"
  by (simp_all add: overflow_events_def fun_eq_iff)

lemma esh_rx_plain:
  assumes "no_escape s" "x \<noteq> 0" "x \<noteq> 0x1B" "x \<noteq> 0x0A"
  shows "esh_rx c s x = handle_char c s x"
  using assms by (simp add: esh_rx_def no_escape_bits)

section \<open>The escape filter\<close>

text \<open>
  C7. From any state with neither escape flag set, the three bytes ESC, \<open>[\<close>, \<open>A\<close> fed
  one at a time produce no output and give back the very same state (so buffer and count
  are unchanged and the flags are again in the no-escape state); the same holds for ESC
  followed by any byte other than \<open>[\<close> and \<open>O\<close>.
\<close>

theorem escape_sequences_are_absorbed:
  assumes "no_escape s"
  shows "feed c s [0x1B, 0x5B, 0x41] = Inr ([], s)
       \<and> (\<forall>x. x \<noteq> 0x5B \<and> x \<noteq> 0x4F \<longrightarrow> feed c s [0x1B, x] = Inr ([], s))"
proof -
  note b = esc_bits[OF no_escape_flags[OF assms]] and3_bits[OF no_escape_flags[OF assms]]
  have 1: "esh_rx c s 0x1B = Inr ([], s\<lparr>flags := flags s OR 1\<rparr>)"
    by (simp add: esh_rx_def IN_ESCAPE_def IN_BRACKET_ESCAPE_def b)
  have 2: "esh_rx c (s\<lparr>flags := flags s OR 1\<rparr>) 0x5B
             = Inr ([], s\<lparr>flags := (flags s OR 1) OR 2\<rparr>)"
    by (simp add: esh_rx_def IN_ESCAPE_def IN_BRACKET_ESCAPE_def b)
  have 3: "esh_rx c (s\<lparr>flags := (flags s OR 1) OR 2\<rparr>) 0x41 = Inr ([], s)"
    using b(5) by (simp add: esh_rx_def IN_ESCAPE_def IN_BRACKET_ESCAPE_def b(3) isalpha_def)
  have 4: "esh_rx c (s\<lparr>flags := flags s OR 1\<rparr>) x = Inr ([], s)"
    if "x \<noteq> 0x5B" "x \<noteq> 0x4F" for x
    using b(4) that by (simp add: esh_rx_def IN_ESCAPE_def IN_BRACKET_ESCAPE_def b(1,2))
  show ?thesis by (simp add: 1 2 3 4 bnd_def)
qed

theorem escape_sequences_are_absorbed_witness:
  "no_escape example_shell
   \<and> feed example_config example_shell [0x1B, 0x5B, 0x41] = Inr ([], example_shell)
   \<and> feed example_config example_shell [0x1B, 0x78] = Inr ([], example_shell)"
  using escape_sequences_are_absorbed[OF no_escape_example, of example_config]
  by (simp add: no_escape_example)

section \<open>The line editor\<close>

text \<open>
  C8. Backspace (byte 8 or 127) with neither escape flag set: with \<open>cnt = 0\<close> nothing
  happens; with \<open>0 < cnt \<le> ESH_BUFFER_LEN\<close> (which includes a buffer filled with exactly
  \<open>ESH_BUFFER_LEN\<close> bytes) the erase sequence is printed, \<open>cnt\<close> goes down by one and no
  overflow handler is called; with \<open>cnt = ESH_BUFFER_LEN + 1\<close> the count stays where it
  is (the overflow branch is taken instead).
\<close>

theorem backspace_cases:
  assumes "no_escape s" and "x = 8 \<or> x = 127" and "print s" and "wf c s"
  shows "(cnt s = 0 \<longrightarrow> esh_rx c s x = Inr ([], s))
       \<and> (0 < cnt s \<and> cnt s \<le> ESH_BUFFER_LEN c \<longrightarrow>
            esh_rx c s x = Inr ([Print [0x08, 0x20, 0x08]], s\<lparr>cnt := cnt s - 1\<rparr>))
       \<and> (cnt s = ESH_BUFFER_LEN c + 1 \<longrightarrow>
            esh_rx c s x =
              Inr (overflow_events s ((buffer s)[ESH_BUFFER_LEN c := 0]),
                   s\<lparr>cnt := ESH_BUFFER_LEN c + 1,
                     buffer := (buffer s)[ESH_BUFFER_LEN c := 0]\<rparr>))"
proof -
  have rx: "esh_rx c s x = handle_char c s x"
    using assms(1,2) by (intro esh_rx_plain) auto
  show ?thesis
    using assms(2,3,4) unfolding rx
    by (auto simp: handle_char_def Let_def call_print_def c_string_def bnd_def store_def
        wf_def call_overflow_ok)
qed

theorem backspace_cases_witness:
  "esh_rx example_config example_shell 8 = Inr ([], example_shell)
   \<and> esh_rx example_config (example_shell\<lparr>cnt := 8\<rparr>) 127
       = Inr ([Print [0x08, 0x20, 0x08]], example_shell\<lparr>cnt := 7\<rparr>)
   \<and> esh_rx example_config (example_shell\<lparr>cnt := 9\<rparr>) 8
       = Inr (overflow_events example_shell ((buffer example_shell)[8 := 0]),
              example_shell\<lparr>cnt := 9, buffer := (buffer example_shell)[8 := 0]\<rparr>)"
proof -
  have w: "wf example_config (example_shell\<lparr>cnt := n\<rparr>)"
    "print (example_shell\<lparr>cnt := n\<rparr>)"
    "no_escape (example_shell\<lparr>cnt := n\<rparr>)" if "n \<le> 9" for n
    using that
    by (simp_all add: wf_def example_config_def example_shell_def esh_init_def no_escape_def
        esh_register_print_def esh_register_callback_def)
  have c: "cnt example_shell = 0" "example_shell\<lparr>cnt := 0\<rparr> = example_shell"
    by (simp_all add: example_shell_def esh_init_def esh_register_print_def
        esh_register_callback_def)
  show ?thesis
    using backspace_cases[OF w(3)[of 0] _ w(2)[of 0] w(1)[of 0], of 8]
      backspace_cases[OF w(3)[of 8] _ w(2)[of 8] w(1)[of 8], of 127]
      backspace_cases[OF w(3)[of 9] _ w(2)[of 9] w(1)[of 9], of 8]
    by (simp add: c example_config_def)
qed

text \<open>
  C5. With the buffer exactly full (\<open>cnt = ESH_BUFFER_LEN\<close>) and neither escape flag set,
  one more ordinary byte (not NUL, backspace, newline or ESC) calls the overflow handler
  exactly once, with the buffer terminated at index \<open>ESH_BUFFER_LEN\<close> and its first
  \<open>ESH_BUFFER_LEN\<close> bytes untouched (so the C string passed has length
  \<open>ESH_BUFFER_LEN\<close> when these bytes are non-zero, as typed bytes are); \<open>cnt\<close> becomes
  \<open>ESH_BUFFER_LEN + 1\<close>, and the byte is neither stored nor echoed: the only events are
  those of the handler call. A further such byte reports again and leaves the state as it
  is.
\<close>

theorem input_overflow_once:
  fixes c s
  defines "b' \<equiv> (buffer s)[ESH_BUFFER_LEN c := 0]"
  defines "s' \<equiv> s\<lparr>cnt := ESH_BUFFER_LEN c + 1, buffer := b'\<rparr>"
  assumes "wf c s" and "no_escape s" and "print s" and "cnt s = ESH_BUFFER_LEN c"
    and "x \<notin> {0, 8, 0x0A, 0x1B, 127}" and "y \<notin> {0, 8, 0x0A, 0x1B, 127}"
  shows "esh_rx c s x = Inr (overflow_events s b', s')
       \<and> length (filter is_Overflow (overflow_events s b')) = 1
       \<and> b' ! ESH_BUFFER_LEN c = 0
       \<and> take (ESH_BUFFER_LEN c) b' = take (ESH_BUFFER_LEN c) (buffer s)
       \<and> (0 \<notin> set (take (ESH_BUFFER_LEN c) (buffer s))
            \<longrightarrow> length (c_string b') = ESH_BUFFER_LEN c)
       \<and> esh_rx c s' y = Inr (overflow_events s b', s')"
proof -
  have len: "length (buffer s) = ESH_BUFFER_LEN c + 1"
    using assms by (simp add: wf_def)
  have ne: "no_escape s'"
    using assms by (simp add: no_escape_def)
  have rx: "esh_rx c s x = handle_char c s x"
    using assms by (intro esh_rx_plain) auto
  have ry: "esh_rx c s' y = handle_char c s' y"
    using ne assms by (intro esh_rx_plain) auto
  have 1: "handle_char c s x = Inr (overflow_events s b', s')"
    using assms len by (simp add: handle_char_def store_def call_overflow_ok bnd_def)
  have 2: "handle_char c s' y = Inr (overflow_events s b', s')"
    using assms len by (simp add: handle_char_def store_def call_overflow_ok bnd_def)
  have 3: "b' ! ESH_BUFFER_LEN c = 0"
    using len by (simp add: b'_def)
  have 4: "take (ESH_BUFFER_LEN c) b' = take (ESH_BUFFER_LEN c) (buffer s)"
    by (simp add: b'_def)
  have 5: "length (c_string b') = ESH_BUFFER_LEN c"
    if nz: "0 \<notin> set (take (ESH_BUFFER_LEN c) (buffer s))"
  proof -
    have "b' = take (ESH_BUFFER_LEN c) (buffer s) @ [0]"
      using len by (simp add: b'_def list_eq_iff_nth_eq nth_append nth_list_update less_Suc_eq)
    moreover have "\<forall>v \<in> set (take (ESH_BUFFER_LEN c) (buffer s)). v \<noteq> 0"
      using nz by auto
    ultimately show ?thesis
      using len by (simp add: c_string_def)
  qed
  show ?thesis
    using 1 2 3 4 5 rx ry overflow_events_once by simp
qed

theorem input_overflow_once_witness:
  "esh_rx example_config full_shell 0x69
     = Inr (Overflow (bytes_of ''abcdefgh'' @ [0]) # map (\<lambda>x. Print [x]) overflow_message,
            full_shell\<lparr>cnt := 9, buffer := bytes_of ''abcdefgh'' @ [0]\<rparr>)
   \<and> length (c_string (bytes_of ''abcdefgh'' @ [0])) = 8
   \<and> esh_rx example_config (full_shell\<lparr>cnt := 9, buffer := bytes_of ''abcdefgh'' @ [0]\<rparr>) 0x6A
     = Inr (Overflow (bytes_of ''abcdefgh'' @ [0]) # map (\<lambda>x. Print [x]) overflow_message,
            full_shell\<lparr>cnt := 9, buffer := bytes_of ''abcdefgh'' @ [0]\<rparr>)"
proof -
  have w: "wf example_config full_shell" "no_escape full_shell" "print full_shell"
    "cnt full_shell = ESH_BUFFER_LEN example_config"
    by (simp_all add: wf_def example_config_def example_shell_def full_shell_def esh_init_def
        no_escape_def esh_register_print_def esh_register_callback_def bytes_of_def)
  have b: "buffer full_shell = bytes_of ''abcdefgh'' @ [0x7A]"
     "overflow full_shell = Internal_overflow"
    by (simp_all add: full_shell_def example_shell_def esh_init_def
        esh_register_print_def esh_register_callback_def)
  have nz: "0 \<notin> set (take 8 (bytes_of ''abcdefgh'' @ [0x7A]))"
    by (simp add: bytes_of_def)
  have m: "c_string overflow_message = overflow_message"
    by (simp add: c_string_def overflow_message_def bytes_of_def)
  show ?thesis
    using input_overflow_once[OF w, of "0x69" "0x6A"] nz
    by (simp add: b example_config_def overflow_events_def m bytes_of_def)
qed

section \<open>The tokenizer loop in closed form\<close>

lemma overwrite_Nil [simp]: "overwrite d [] b = b"
  by (simp add: overwrite_def)

lemma length_overwrite [simp]:
  "d + length out \<le> length b \<Longrightarrow> length (overwrite d out b) = length b"
  by (simp add: overwrite_def)

lemma overwrite_one:
  "d < length b \<Longrightarrow> b[d := v] = overwrite d [v] b"
  by (simp add: overwrite_def upd_conv_take_nth_drop)

lemma overwrite_overwrite:
  assumes "d + length o1 \<le> length b"
  shows "overwrite (d + length o1) o2 (overwrite d o1 b) = overwrite d (o1 @ o2) b"
  using assms by (simp add: overwrite_def ac_simps)

lemma drop_overwrite:
  assumes "d + length out \<le> k" "d + length out \<le> length b"
  shows "drop k (overwrite d out b) = drop k b"
  using assms by (simp add: overwrite_def)


lemma put_args_append:
  "put_args m k (ps @ qs) a = put_args m (k + length ps) qs (put_args m k ps a)"
  by (induction ps arbitrary: k a) simp_all

lemma length_put_args [simp]: "length (put_args m k ps a) = length a"
  by (induction ps arbitrary: k a) simp_all

lemma length_tok_emit: "length (tok_emit q x) \<le> 1"
  by (simp add: tok_emit_def)

lemma length_tok_out: "length (tok_out q xs) \<le> length xs"
proof (induction xs arbitrary: q)
  case Nil
  show ?case by simp
next
  case (Cons x xs)
  show ?case using Cons[of "tok_quote q x"] length_tok_emit[of q x] by simp
qed

lemma loop_body_closed:
  assumes "i < length (buffer e)" "dest l \<le> i" "length (argv e) = ESH_ARGC_MAX c"
  shows "loop_body c i (e, l) =
     Inr (e\<lparr>buffer := overwrite (dest l) (tok_emit (quote l) (buffer e ! i)) (buffer e),
            argv := put_args (ESH_ARGC_MAX c) (argc l)
                      (if tok_start (last_was_space l) (quote l) (buffer e ! i) then [i] else [])
                      (argv e)\<rparr>,
          l\<lparr>argc := argc l + (if tok_start (last_was_space l) (quote l) (buffer e ! i) then 1 else 0),
            last_was_space := tok_space (quote l) (buffer e ! i),
            dest := dest l + length (tok_emit (quote l) (buffer e ! i)),
            quote := tok_quote (quote l) (buffer e ! i)\<rparr>)"
  using assms
  by (simp add: loop_body_def store_def store_ptr_def tok_emit_def tok_start_def tok_space_def
      tok_quote_def overwrite_one)


lemma make_arg_loop_closed:
  assumes "dest l \<le> i" "i \<le> cnt e" "cnt e \<le> length (buffer e)"
    and "length (argv e) = ESH_ARGC_MAX c"
  shows "\<exists>l'. make_arg_loop c i (e, l) =
           Inr (e\<lparr>buffer := overwrite (dest l)
                              (tok_out (quote l) (take (cnt e - i) (drop i (buffer e))))
                              (buffer e),
                  argv := put_args (ESH_ARGC_MAX c) (argc l)
                            (tok_starts i (last_was_space l) (quote l)
                               (take (cnt e - i) (drop i (buffer e))))
                            (argv e)\<rparr>, l')
         \<and> argc l' = argc l + length (tok_starts i (last_was_space l) (quote l)
                                        (take (cnt e - i) (drop i (buffer e))))
         \<and> dest l' = dest l + length (tok_out (quote l) (take (cnt e - i) (drop i (buffer e))))"
  using assms
proof (induction "cnt e - i" arbitrary: i e l)
  case 0
  then have "make_arg_loop c i (e, l) = Inr (e, l)"
    by (subst make_arg_loop.simps) simp
  with 0 show ?case by simp
next
  case (Suc n)
  define b where "b = buffer e"
  define x where "x = b ! i"
  define o1 where "o1 = tok_emit (quote l) x"
  define s1 where "s1 = (if tok_start (last_was_space l) (quote l) x then [i] else [])"
  define e1 where "e1 = e\<lparr>buffer := overwrite (dest l) o1 b,
                           argv := put_args (ESH_ARGC_MAX c) (argc l) s1 (argv e)\<rparr>"
  define l1 where "l1 = l\<lparr>argc := argc l + length s1, last_was_space := tok_space (quote l) x,
                           dest := dest l + length o1, quote := tok_quote (quote l) x\<rparr>"
  define xs' where "xs' = take n (drop (Suc i) b)"
  have lt: "i < cnt e" and ilen: "i < length b" and n: "n = cnt e - Suc i"
    using Suc.hyps(2) Suc.prems by (simp_all add: b_def)
  have o1: "length o1 \<le> 1"
    using length_tok_emit[of "quote l" x] by (simp add: o1_def)
  have fit: "dest l + length o1 \<le> length b" "dest l + length o1 \<le> Suc i"
    using o1 ilen Suc.prems(1) by simp_all
  have body: "loop_body c i (e, l) = Inr (e1, l1)"
    using loop_body_closed[of i e l c] ilen Suc.prems
    by (simp add: b_def x_def o1_def s1_def e1_def l1_def)
  have step: "make_arg_loop c i (e, l) = make_arg_loop c (Suc i) (e1, l1)"
    by (subst make_arg_loop.simps) (simp add: lt body)
  have xs: "take (cnt e - i) (drop i b) = x # xs'"
  proof -
    have "drop i b = x # drop (Suc i) b"
      using ilen by (simp add: x_def Cons_nth_drop_Suc)
    moreover have "cnt e - i = Suc n"
      using Suc.hyps(2) by simp
    ultimately show ?thesis
      by (simp add: xs'_def)
  qed
  have xs1: "take (cnt e1 - Suc i) (drop (Suc i) (buffer e1)) = xs'"
    using fit n by (simp add: e1_def xs'_def drop_overwrite)
  have pre: "dest l1 \<le> Suc i" "Suc i \<le> cnt e1" "cnt e1 \<le> length (buffer e1)"
    "length (argv e1) = ESH_ARGC_MAX c" "n = cnt e1 - Suc i"
    using fit lt n Suc.prems by (simp_all add: l1_def e1_def b_def)
  obtain l' where l': "make_arg_loop c (Suc i) (e1, l1) =
           Inr (e1\<lparr>buffer := overwrite (dest l1) (tok_out (quote l1) xs') (buffer e1),
                   argv := put_args (ESH_ARGC_MAX c) (argc l1)
                            (tok_starts (Suc i) (last_was_space l1) (quote l1) xs') (argv e1)\<rparr>, l')"
    "argc l' = argc l1 + length (tok_starts (Suc i) (last_was_space l1) (quote l1) xs')"
    "dest l' = dest l1 + length (tok_out (quote l1) xs')"
    using Suc.hyps(1)[OF pre(5) pre(1) pre(2) pre(3) pre(4)] unfolding xs1 by blast
  have out: "tok_out (quote l) (x # xs') = o1 @ tok_out (quote l1) xs'"
    by (simp add: o1_def l1_def)
  have st: "tok_starts i (last_was_space l) (quote l) (x # xs')
              = s1 @ tok_starts (Suc i) (last_was_space l1) (quote l1) xs'"
    by (simp add: s1_def l1_def)
  have buf: "overwrite (dest l1) (tok_out (quote l1) xs') (buffer e1)
               = overwrite (dest l) (tok_out (quote l) (x # xs')) b"
    unfolding out using fit by (simp add: l1_def e1_def overwrite_overwrite)
  have av: "put_args (ESH_ARGC_MAX c) (argc l1)
              (tok_starts (Suc i) (last_was_space l1) (quote l1) xs') (argv e1)
            = put_args (ESH_ARGC_MAX c) (argc l)
              (tok_starts i (last_was_space l) (quote l) (x # xs')) (argv e)"
    unfolding st by (simp add: put_args_append l1_def e1_def)
  have res: "e1\<lparr>buffer := overwrite (dest l1) (tok_out (quote l1) xs') (buffer e1),
                   argv := put_args (ESH_ARGC_MAX c) (argc l1)
                            (tok_starts (Suc i) (last_was_space l1) (quote l1) xs') (argv e1)\<rparr>
             = e\<lparr>buffer := overwrite (dest l) (tok_out (quote l) (x # xs')) b,
                  argv := put_args (ESH_ARGC_MAX c) (argc l)
                            (tok_starts i (last_was_space l) (quote l) (x # xs')) (argv e)\<rparr>"
    unfolding buf av by (simp add: e1_def)
  show ?case
    unfolding step b_def[symmetric] xs
    using l' unfolding res
    unfolding out st by (intro exI[of _ l']) (simp add: l1_def)
qed

lemma make_arg_array_closed:
  assumes "wf c s"
  shows "make_arg_array c s =
    (if length (tok_out 0 (take (cnt s) (buffer s))) \<le> ESH_BUFFER_LEN c
     then Inr (token_count (take (cnt s) (buffer s)), tokenized c s)
     else Inl (Out_of_bounds (length (tok_out 0 (take (cnt s) (buffer s))))))"
proof -
  define l0 where "l0 = \<lparr>argc = 0, last_was_space = True, dest = 0, quote = 0\<rparr>"
  define line where "line = take (cnt s) (buffer s)"
  have len: "length (buffer s) = ESH_BUFFER_LEN c + 1" "length (argv s) = ESH_ARGC_MAX c"
    "cnt s \<le> length (buffer s)"
    using assms by (simp_all add: wf_def)
  have ol: "length (tok_out 0 line) \<le> cnt s"
    using length_tok_out[of 0 line] len(3) by (simp add: line_def)
  obtain l' where l': "make_arg_loop c 0 (s, l0) =
      Inr (s\<lparr>buffer := overwrite 0 (tok_out 0 line) (buffer s),
             argv := put_args (ESH_ARGC_MAX c) 0 (token_starts line) (argv s)\<rparr>, l')"
      "argc l' = token_count line" "dest l' = length (tok_out 0 line)"
    using make_arg_loop_closed[of l0 0 s c] len
    by (auto simp: l0_def line_def token_starts_def token_count_def)
  have ow: "length (overwrite 0 (tok_out 0 line) (buffer s)) = ESH_BUFFER_LEN c + 1"
    using ol len by simp
  show ?thesis
    unfolding make_arg_array_def l0_def[symmetric] l' line_def[symmetric]
    using ow by (simp add: store_def l' tokenized_def Let_def line_def[symmetric])
qed

lemma nth_put_args:
  "length a = m \<Longrightarrow> j < m \<Longrightarrow>
   put_args m k ps a ! j = (if k \<le> j \<and> j < k + length ps then Some (ps ! (j - k)) else a ! j)"
proof (induction ps arbitrary: k a)
  case Nil
  show ?case by auto
next
  case (Cons p ps)
  show ?case
    using Cons.prems Cons.IH[of "if k < m then a[k := Some p] else a" "Suc k"]
    by (auto simp: nth_list_update nth_Cons' Suc_diff_le)
qed

lemma tokenized_frame [simp]:
  "print (tokenized c s) = print s" "callback (tokenized c s) = callback s"
  "overflow (tokenized c s) = overflow s" "cnt (tokenized c s) = cnt s"
  "flags (tokenized c s) = flags s" "length (argv (tokenized c s)) = length (argv s)"
  by (simp_all add: tokenized_def Let_def)

lemma execute_command_closed:
  assumes "make_arg_array c s = Inr (n, s1)" and "print s1" and "callback s1"
  shows "execute_command c s =
           Inr ((if n > ESH_ARGC_MAX c then overflow_events s1 (buffer s1)
                 else if n > 0 then [Callback n (argv s1) (buffer s1)] else [])
                  @ map (\<lambda>x. Print [x]) (c_string (ESH_PROMPT c)),
                s1\<lparr>cnt := 0\<rparr>)"
  using assms
  by (simp add: execute_command_def call_overflow_ok call_callback_def print_prompt_def
      esh_puts_F_ok bnd_def)


section \<open>Dispatch on newline\<close>

text \<open>
  C1. A newline received with neither escape flag set is echoed and the line is tokenized.
  Tokenization completes whenever no input overflow has happened (\<open>cnt \<le> ESH_BUFFER_LEN\<close>).
  Whenever it completes with result \<open>n\<close>: \<open>n\<close> is the true number of tokens of the
  line, whatever \<open>ESH_ARGC_MAX\<close> is; \<open>argv\<close> holds the starts of the first
  \<open>ESH_ARGC_MAX\<close> tokens and is otherwise untouched; if \<open>n > ESH_ARGC_MAX\<close> the overflow
  handler is called with the rewritten buffer and the callback is not called; if
  \<open>0 < n \<le> ESH_ARGC_MAX\<close> the callback is called with \<open>n\<close> and \<open>argv\<close>; if \<open>n = 0\<close>
  neither is called. In every case the prompt follows and \<open>cnt\<close> is reset to 0.
\<close>

theorem newline_dispatch:
  assumes "wf c s" and "no_escape s" and "print s" and "callback s"
  shows "(cnt s \<le> ESH_BUFFER_LEN c \<longrightarrow> (\<exists>n s1. make_arg_array c s = Inr (n, s1)))
       \<and> (\<forall>n s1. make_arg_array c s = Inr (n, s1) \<longrightarrow>
             n = token_count (take (cnt s) (buffer s))
           \<and> s1 = tokenized c s
           \<and> length (argv s1) = ESH_ARGC_MAX c
           \<and> (\<forall>k < ESH_ARGC_MAX c.
                 argv s1 ! k = (if k < n then Some (token_starts (take (cnt s) (buffer s)) ! k)
                                else argv s ! k))
           \<and> esh_rx c s 0x0A =
               Inr (Print [0x0A]
                      # (if n > ESH_ARGC_MAX c then overflow_events s1 (buffer s1)
                         else if n > 0 then [Callback n (argv s1) (buffer s1)] else [])
                      @ map (\<lambda>x. Print [x]) (c_string (ESH_PROMPT c)),
                    s1\<lparr>cnt := 0\<rparr>))"
proof (intro conjI allI impI)
  assume "cnt s \<le> ESH_BUFFER_LEN c"
  then have "length (tok_out 0 (take (cnt s) (buffer s))) \<le> ESH_BUFFER_LEN c"
    using length_tok_out[of 0 "take (cnt s) (buffer s)"] by simp
  then show "\<exists>n s1. make_arg_array c s = Inr (n, s1)"
    by (simp add: make_arg_array_closed[OF assms(1)])
next
  fix n s1
  assume r: "make_arg_array c s = Inr (n, s1)"
  then have n: "n = token_count (take (cnt s) (buffer s))" and s1: "s1 = tokenized c s"
    by (simp_all add: make_arg_array_closed[OF assms(1)] split: if_splits)
  show "n = token_count (take (cnt s) (buffer s))" by (rule n)
  show "s1 = tokenized c s" by (rule s1)
  show "length (argv s1) = ESH_ARGC_MAX c"
    using assms(1) by (simp add: s1 wf_def)
  have rx: "esh_rx c s 0x0A = bnd (esh_putc s 0x0A) (\<lambda>_. execute_command c s)"
    using assms(2) by (simp add: esh_rx_def no_escape_bits)
  show "esh_rx c s 0x0A =
               Inr (Print [0x0A]
                      # (if n > ESH_ARGC_MAX c then overflow_events s1 (buffer s1)
                         else if n > 0 then [Callback n (argv s1) (buffer s1)] else [])
                      @ map (\<lambda>x. Print [x]) (c_string (ESH_PROMPT c)),
                    s1\<lparr>cnt := 0\<rparr>)"
    unfolding rx using assms(3,4)
    by (simp add: execute_command_closed[OF r] s1 esh_putc_ok bnd_def)
next
  fix n s1 k
  assume r: "make_arg_array c s = Inr (n, s1)" and k: "k < ESH_ARGC_MAX c"
  then have n: "n = token_count (take (cnt s) (buffer s))" and s1: "s1 = tokenized c s"
    by (simp_all add: make_arg_array_closed[OF assms(1)] split: if_splits)
  have "length (argv s) = ESH_ARGC_MAX c"
    using assms(1) by (simp add: wf_def)
  then show "argv s1 ! k = (if k < n then Some (token_starts (take (cnt s) (buffer s)) ! k)
                                else argv s ! k)"
    using k by (simp add: s1 n tokenized_def Let_def nth_put_args token_count_def)
qed

theorem newline_dispatch_witness:
  "esh_rx example_config full_shell 0x0A
     = Inr ([Print [0x0A], Callback 1 [Some 0, None, None] (bytes_of ''abcdefgh'' @ [0]),
             Print [0x25], Print [0x20]],
            full_shell\<lparr>buffer := bytes_of ''abcdefgh'' @ [0], argv := [Some 0, None, None],
                       cnt := 0\<rparr>)
   \<and> esh_rx example_config many_shell 0x0A
     = Inr (Print [0x0A] # Overflow [0x61, 0, 0x62, 0, 0x63, 0, 0x64, 0, 0]
              # map (\<lambda>x. Print [x]) overflow_message @ [Print [0x25], Print [0x20]],
            many_shell\<lparr>buffer := [0x61, 0, 0x62, 0, 0x63, 0, 0x64, 0, 0],
                       argv := [Some 0, Some 2, Some 4], cnt := 0\<rparr>)
   \<and> esh_rx example_config example_shell 0x0A
     = Inr ([Print [0x0A], Print [0x25], Print [0x20]], example_shell)
   \<and> (\<exists>n s1. make_arg_array example_config full_shell = Inr (n, s1))"
proof -
  have w: "wf example_config full_shell" "no_escape full_shell" "print full_shell"
    "callback full_shell"
    "wf example_config many_shell" "no_escape many_shell" "print many_shell"
    "callback many_shell"
    "wf example_config example_shell" "no_escape example_shell" "print example_shell"
    "callback example_shell"
    by (simp_all add: wf_def example_config_def example_shell_def full_shell_def many_shell_def
        esh_init_def no_escape_def esh_register_print_def esh_register_callback_def bytes_of_def)
  have m1: "make_arg_array example_config full_shell
              = Inr (1, full_shell\<lparr>buffer := bytes_of ''abcdefgh'' @ [0],
                                  argv := [Some 0, None, None]\<rparr>)"
    by code_simp
  have m2: "make_arg_array example_config many_shell
              = Inr (4, many_shell\<lparr>buffer := [0x61, 0, 0x62, 0, 0x63, 0, 0x64, 0, 0],
                                  argv := [Some 0, Some 2, Some 4]\<rparr>)"
    by code_simp
  have m3: "make_arg_array example_config example_shell = Inr (0, example_shell)"
    by code_simp
  have e: "example_shell\<lparr>cnt := 0\<rparr> = example_shell"
    by (simp add: example_shell_def esh_init_def esh_register_print_def
        esh_register_callback_def)
  have o: "overflow many_shell = Internal_overflow"
    "ESH_ARGC_MAX example_config = 3"
    "c_string (ESH_PROMPT example_config) = [0x25, 0x20]"
    "c_string overflow_message = overflow_message"
    by (simp_all add: many_shell_def example_shell_def esh_init_def esh_register_print_def
        esh_register_callback_def example_config_def c_string_def bytes_of_def
        overflow_message_def)
  have c: "cnt full_shell \<le> ESH_BUFFER_LEN example_config"
    by (simp add: full_shell_def example_config_def)
  show ?thesis
    using newline_dispatch[OF w(1-4), THEN conjunct2, rule_format, OF m1]
      newline_dispatch[OF w(5-8), THEN conjunct2, rule_format, OF m2]
      newline_dispatch[OF w(9-12), THEN conjunct2, rule_format, OF m3]
      newline_dispatch[OF w(1-4), THEN conjunct1, rule_format, OF c]
    by (simp add: o e overflow_events_def)
qed

section \<open>The two documented examples\<close>

lemma tokenized_prefix:
  assumes "wf c s" and "length (tok_out 0 (take (cnt s) (buffer s))) \<le> ESH_BUFFER_LEN c"
  shows "take (Suc (length (tok_out 0 (take (cnt s) (buffer s))))) (buffer (tokenized c s))
           = tok_out 0 (take (cnt s) (buffer s)) @ [0]"
proof -
  define out where "out = tok_out 0 (take (cnt s) (buffer s))"
  define X where "X = overwrite 0 out (buffer s)"
  have len: "length (buffer s) = ESH_BUFFER_LEN c + 1"
    using assms(1) by (simp add: wf_def)
  have D: "length out \<le> ESH_BUFFER_LEN c"
    using assms(2) by (simp add: out_def)
  have X: "length X = ESH_BUFFER_LEN c + 1" "take (length out) X = out"
    using D len by (simp_all add: X_def overwrite_def)
  have "take (Suc (length out)) (X[length out := 0, ESH_BUFFER_LEN c := 0])
          = take (length out) X @ [0]"
  proof (cases "length out = ESH_BUFFER_LEN c")
    case True
    then show ?thesis using X(1) by (simp add: upd_conv_take_nth_drop)
  next
    case False
    then have "Suc (length out) \<le> ESH_BUFFER_LEN c" using D by simp
    then show ?thesis using X(1) D by (simp add: take_Suc_conv_app_nth)
  qed
  then show ?thesis
    by (simp add: tokenized_def Let_def X out_def[symmetric] X_def[symmetric])
qed

lemma tokenized_rest:
  assumes "wf c s"
  shows "drop (Suc (length (tok_out 0 (take (cnt s) (buffer s))))) (buffer (tokenized c s))
           = (drop (Suc (length (tok_out 0 (take (cnt s) (buffer s))))) (buffer s))
               [ESH_BUFFER_LEN c - Suc (length (tok_out 0 (take (cnt s) (buffer s)))) := 0]"
proof -
  define out where "out = tok_out 0 (take (cnt s) (buffer s))"
  have len: "length (buffer s) = ESH_BUFFER_LEN c + 1" "cnt s \<le> ESH_BUFFER_LEN c + 1"
    using assms(1) by (simp_all add: wf_def)
  have D: "length out \<le> ESH_BUFFER_LEN c + 1"
    using length_tok_out[of 0 "take (cnt s) (buffer s)"] len by (simp add: out_def)
  show ?thesis
  proof (cases "Suc (length out) \<le> ESH_BUFFER_LEN c")
    case True
    then show ?thesis
      using len
      by (simp add: tokenized_def Let_def out_def[symmetric] drop_update_swap overwrite_def)
  next
    case False
    then show ?thesis
      using len D by (simp add: tokenized_def Let_def out_def[symmetric])
  qed
qed

lemma c_string_stop: "0 \<notin> set t \<Longrightarrow> c_string (t @ 0 # r) = t"
  by (auto simp: c_string_def takeWhile_tail)

lemma tokenized_split:
  assumes "wf c s" and "take (cnt s) (buffer s) = line"
    and "tok_out 0 line = out" and "length out \<le> ESH_BUFFER_LEN c"
  shows "buffer (tokenized c s)
           = out @ 0 # (drop (Suc (length out)) (buffer s))[ESH_BUFFER_LEN c - Suc (length out) := 0]"
proof -
  have "buffer (tokenized c s) = take (Suc (length out)) (buffer (tokenized c s))
          @ drop (Suc (length out)) (buffer (tokenized c s))"
    by simp
  also have "\<dots> = (out @ [0])
          @ (drop (Suc (length out)) (buffer s))[ESH_BUFFER_LEN c - Suc (length out) := 0]"
    using tokenized_prefix[OF assms(1)] tokenized_rest[OF assms(1)] assms(2,3,4) by simp
  finally show ?thesis by simp
qed

text \<open>
  C6. Tokenizing a buffer that starts with the line
  \<open>why" would you ever"'"'"do this??"\<close> (34 bytes, \<open>cnt = 34\<close>) returns 1; the buffer
  then starts with the 28 bytes \<open>why would you ever"do this??\<close> followed by NUL, and
  \<open>argv[0]\<close> points at index 0, so the single argument is exactly that string.
\<close>

theorem why_example:
  assumes "wf c s" and "buffer s = why_line @ rest" and "cnt s = 34"
    and "1 \<le> ESH_ARGC_MAX c"
  shows "\<exists>s1. make_arg_array c s = Inr (1, s1)
            \<and> take 29 (buffer s1) = bytes_of ''why would you ever\"do this??'' @ [0]
            \<and> argv s1 ! 0 = Some 0
            \<and> arg_string s1 0 = Some (bytes_of ''why would you ever\"do this??'')"
proof -
  have n: "length why_line = 34"
    by (simp add: why_line_def bytes_of_def)
  have line: "take (cnt s) (buffer s) = why_line"
    using assms(2,3) n by simp
  have out: "tok_out 0 why_line = bytes_of ''why would you ever\"do this??''"
    by code_simp
  have st: "token_starts why_line = [0]"
    by code_simp
  have lo: "length (bytes_of ''why would you ever\"do this??'') = 28"
    by (simp add: bytes_of_def)
  have nz: "0 \<notin> set (bytes_of ''why would you ever\"do this??'')"
    by (simp add: bytes_of_def)
  have bl: "28 \<le> ESH_BUFFER_LEN c" and la: "0 < length (argv s)"
    using assms(1,3,4) by (simp_all add: wf_def)
  have m: "make_arg_array c s = Inr (1, tokenized c s)"
    using bl by (simp add: make_arg_array_closed[OF assms(1)] line out lo token_count_def st)
  have b: "buffer (tokenized c s) = bytes_of ''why would you ever\"do this??''
              @ 0 # (drop 29 (buffer s))[ESH_BUFFER_LEN c - 29 := 0]"
    using tokenized_split[OF assms(1) line out] bl by (simp add: lo)
  have a: "argv (tokenized c s) ! 0 = Some 0"
    using la assms(4) by (simp add: tokenized_def Let_def line st)
  have t: "take 29 (buffer (tokenized c s)) = bytes_of ''why would you ever\"do this??'' @ [0]"
    by (simp add: b lo)
  have g: "arg_string (tokenized c s) 0 = Some (bytes_of ''why would you ever\"do this??'')"
    unfolding arg_string_def a b by (simp add: c_string_stop[OF nz])
  show ?thesis
    using m t a g by blast
qed

lemma wf_shell_holding:
  "length line \<le> ESH_BUFFER_LEN c + 1 \<Longrightarrow> wf c (shell_holding c line)"
  by (simp add: wf_def shell_holding_def esh_init_def esh_register_print_def
      esh_register_callback_def)

lemma shell_holding_simps:
  "buffer (shell_holding c line) = line @ replicate (ESH_BUFFER_LEN c + 1 - length line) 0"
  "cnt (shell_holding c line) = length line"
  "print (shell_holding c line)" "callback (shell_holding c line)"
  "no_escape (shell_holding c line)"
  "argv (shell_holding c line) = replicate (ESH_ARGC_MAX c) None"
  "overflow (shell_holding c line) = Internal_overflow"
  by (simp_all add: shell_holding_def esh_init_def esh_register_print_def
      esh_register_callback_def no_escape_def)

theorem why_example_witness:
  "\<exists>s1. make_arg_array demo_config (shell_holding demo_config why_line) = Inr (1, s1)
        \<and> take 29 (buffer s1) = bytes_of ''why would you ever\"do this??'' @ [0]
        \<and> argv s1 ! 0 = Some 0
        \<and> arg_string s1 0 = Some (bytes_of ''why would you ever\"do this??'')"
proof -
  have n: "length why_line = 34"
    by (simp add: why_line_def bytes_of_def)
  have "wf demo_config (shell_holding demo_config why_line)"
    by (rule wf_shell_holding) (simp add: n demo_config_def)
  moreover have "buffer (shell_holding demo_config why_line)
                   = why_line @ replicate (ESH_BUFFER_LEN demo_config + 1 - 34) 0"
    by (simp add: shell_holding_simps n)
  moreover have "cnt (shell_holding demo_config why_line) = 34"
    by (simp add: shell_holding_simps n)
  moreover have "1 \<le> ESH_ARGC_MAX demo_config"
    by (simp add: demo_config_def)
  ultimately show ?thesis
    by (rule why_example)
qed

lemma tokenized_terminated:
  assumes "wf c s"
  shows "buffer (tokenized c s) ! ESH_BUFFER_LEN c = 0"
proof -
  have "length (tok_out 0 (take (cnt s) (buffer s))) \<le> length (buffer s)"
    using length_tok_out[of 0 "take (cnt s) (buffer s)"] by simp
  then show ?thesis
    using assms by (simp add: tokenized_def Let_def wf_def)
qed

lemma nth_argv_tokenized:
  assumes "wf c s" and "k < ESH_ARGC_MAX c" and "k < length (token_starts (take (cnt s) (buffer s)))"
  shows "argv (tokenized c s) ! k = Some (token_starts (take (cnt s) (buffer s)) ! k)"
  using assms by (simp add: tokenized_def Let_def wf_def nth_put_args)

text \<open>
  C3, as the code has it. Tokenizing a buffer that starts with the line
  \<open>git   config user.name "My Name"\<close> (32 bytes, \<open>cnt = 32\<close>) returns 4. Every unquoted
  space is replaced by its own NUL, so the buffer then starts with
  \<open>git\0\0\0config\0user.name\0My Name\0\<close> (three NULs after \<open>git\<close>, 31 bytes in all),
  it is terminated at \<open>ESH_BUFFER_LEN\<close>, the four pointers are the indices 0, 6, 13, 23,
  and the four arguments are \<open>git\<close>, \<open>config\<close>, \<open>user.name\<close>, \<open>My Name\<close>.
\<close>

theorem git_example:
  assumes "wf c s" and "buffer s = git_line @ rest" and "cnt s = 32"
    and "4 \<le> ESH_ARGC_MAX c"
  shows "\<exists>s1. make_arg_array c s = Inr (4, s1)
            \<and> take 31 (buffer s1) = bytes_of ''git'' @ [0, 0, 0] @ bytes_of ''config'' @ [0]
                 @ bytes_of ''user.name'' @ [0] @ bytes_of ''My Name'' @ [0]
            \<and> buffer s1 ! ESH_BUFFER_LEN c = 0
            \<and> map (\<lambda>k. argv s1 ! k) [0, 1, 2, 3] = [Some 0, Some 6, Some 13, Some 23]
            \<and> map (arg_string s1) [0, 1, 2, 3]
                 = [Some (bytes_of ''git''), Some (bytes_of ''config''),
                    Some (bytes_of ''user.name''), Some (bytes_of ''My Name'')]"
proof -
  define out where "out = bytes_of ''git'' @ [0, 0, 0] @ bytes_of ''config'' @ [0]
                 @ bytes_of ''user.name'' @ [0] @ bytes_of ''My Name''"
  define R where "R = (drop 31 (buffer s))[ESH_BUFFER_LEN c - 31 := 0]"
  have n: "length git_line = 32"
    by (simp add: git_line_def bytes_of_def)
  have line: "take (cnt s) (buffer s) = git_line"
    using assms(2,3) n by simp
  have out: "tok_out 0 git_line = out"
    unfolding out_def by code_simp
  have st: "token_starts git_line = [0, 6, 13, 23]"
    by code_simp
  have lo: "length out = 30"
    by (simp add: out_def bytes_of_def)
  have bl: "30 \<le> ESH_BUFFER_LEN c"
    using assms(1,3) by (simp add: wf_def)
  have m: "make_arg_array c s = Inr (4, tokenized c s)"
    using bl by (simp add: make_arg_array_closed[OF assms(1)] line out lo token_count_def st)
  have b: "buffer (tokenized c s) = out @ 0 # R"
    using tokenized_split[OF assms(1) line out] bl by (simp add: lo R_def)
  have t: "take 31 (buffer (tokenized c s)) = out @ [0]"
    by (simp add: b lo)
  have a: "argv (tokenized c s) ! 0 = Some 0" "argv (tokenized c s) ! 1 = Some 6"
    "argv (tokenized c s) ! 2 = Some 13" "argv (tokenized c s) ! 3 = Some 23"
    using assms(4) by (simp_all add: nth_argv_tokenized[OF assms(1)] line st)
  have g0: "c_string (drop 0 (out @ 0 # R)) = bytes_of ''git''"
    by (simp add: out_def bytes_of_def c_string_def)
  have g1: "c_string (drop 6 (out @ 0 # R)) = bytes_of ''config''"
    by (simp add: out_def bytes_of_def c_string_def)
  have g2: "c_string (drop 13 (out @ 0 # R)) = bytes_of ''user.name''"
    by (simp add: out_def bytes_of_def c_string_def)
  have g3: "c_string (drop 23 (out @ 0 # R)) = bytes_of ''My Name''"
    by (simp add: out_def bytes_of_def c_string_def)
  have g: "map (arg_string (tokenized c s)) [0, 1, 2, 3]
                 = [Some (bytes_of ''git''), Some (bytes_of ''config''),
                    Some (bytes_of ''user.name''), Some (bytes_of ''My Name'')]"
    using g0 g1 g2 g3 a by (simp add: arg_string_def b)
  have "make_arg_array c s = Inr (4, tokenized c s)
            \<and> take 31 (buffer (tokenized c s)) = out @ [0]
            \<and> buffer (tokenized c s) ! ESH_BUFFER_LEN c = 0
            \<and> map (\<lambda>k. argv (tokenized c s) ! k) [0, 1, 2, 3] = [Some 0, Some 6, Some 13, Some 23]
            \<and> map (arg_string (tokenized c s)) [0, 1, 2, 3]
                 = [Some (bytes_of ''git''), Some (bytes_of ''config''),
                    Some (bytes_of ''user.name''), Some (bytes_of ''My Name'')]"
    using m t tokenized_terminated[OF assms(1)] a g by simp
  then show ?thesis
    unfolding out_def by (intro exI[of _ "tokenized c s"]) simp
qed

theorem git_example_witness:
  "\<exists>s1. make_arg_array demo_config (shell_holding demo_config git_line) = Inr (4, s1)
            \<and> take 31 (buffer s1) = bytes_of ''git'' @ [0, 0, 0] @ bytes_of ''config'' @ [0]
                 @ bytes_of ''user.name'' @ [0] @ bytes_of ''My Name'' @ [0]
            \<and> buffer s1 ! ESH_BUFFER_LEN demo_config = 0
            \<and> map (\<lambda>k. argv s1 ! k) [0, 1, 2, 3] = [Some 0, Some 6, Some 13, Some 23]
            \<and> map (arg_string s1) [0, 1, 2, 3]
                 = [Some (bytes_of ''git''), Some (bytes_of ''config''),
                    Some (bytes_of ''user.name''), Some (bytes_of ''My Name'')]"
proof -
  have n: "length git_line = 32"
    by (simp add: git_line_def bytes_of_def)
  have "wf demo_config (shell_holding demo_config git_line)"
    by (rule wf_shell_holding) (simp add: n demo_config_def)
  moreover have "buffer (shell_holding demo_config git_line)
                   = git_line @ replicate (ESH_BUFFER_LEN demo_config + 1 - 32) 0"
    by (simp add: shell_holding_simps n)
  moreover have "cnt (shell_holding demo_config git_line) = 32"
    by (simp add: shell_holding_simps n)
  moreover have "4 \<le> ESH_ARGC_MAX demo_config"
    by (simp add: demo_config_def)
  ultimately show ?thesis
    by (rule git_example)
qed

text \<open>
  C3, as claimed, fails: after tokenizing that line in a 48-byte buffer the first 29 bytes
  are not the 29 bytes \<open>git\0config\0user.name\0My Name\0\<close>; the three spaces after
  \<open>git\<close> have become three NULs.
\<close>

theorem git_single_nul_counterexample:
  "make_arg_array demo_config (shell_holding demo_config git_line)
     = Inr (4, (shell_holding demo_config git_line)
                 \<lparr>buffer := bytes_of ''git'' @ [0, 0, 0] @ bytes_of ''config'' @ [0]
                     @ bytes_of ''user.name'' @ [0] @ bytes_of ''My Name'' @ [0, 0x22]
                     @ replicate 16 0,
                   argv := [Some 0, Some 6, Some 13, Some 23, None, None]\<rparr>)
   \<and> length (bytes_of ''git'' @ [0] @ bytes_of ''config'' @ [0]
               @ bytes_of ''user.name'' @ [0] @ bytes_of ''My Name'' @ [0]) = 29
   \<and> take 29 (bytes_of ''git'' @ [0, 0, 0] @ bytes_of ''config'' @ [0]
                 @ bytes_of ''user.name'' @ [0] @ bytes_of ''My Name'' @ [0, 0x22]
                 @ replicate 16 0)
       \<noteq> bytes_of ''git'' @ [0] @ bytes_of ''config'' @ [0]
           @ bytes_of ''user.name'' @ [0] @ bytes_of ''My Name'' @ [0]"
  by code_simp

section \<open>Where the tokenizer departs from its description\<close>

text \<open>
  C2. The claim is that the pointer recorded for a token is the write position at the
  moment the token starts. The loop stores \<open>&esh->buffer[i]\<close>, the read position. The two
  differ as soon as a quote character has been dropped earlier in the line: typing
  \<open>"a" bc d\<close> and newline into the fresh example shell calls the callback with
  \<open>argv = {0, 4, 7}\<close>, although the second token started when the write position was 2
  and its bytes \<open>bc\<close> are at index 2 of the rewritten buffer; index 4 holds the NUL
  written after it, so the callback's \<open>argv[1]\<close> is the empty string.
\<close>

theorem argv_records_read_index:
  "feed example_config example_shell (bytes_of ''\"a\" bc d'' @ [0x0A])
     = Inr (map (\<lambda>x. Print [x]) (bytes_of ''\"a\" bc d'' @ [0x0A])
              @ [Callback 3 [Some 0, Some 4, Some 7] [0x61, 0, 0x62, 0x63, 0, 0x64, 0, 0x64, 0],
                 Print [0x25], Print [0x20]],
            example_shell\<lparr>buffer := [0x61, 0, 0x62, 0x63, 0, 0x64, 0, 0x64, 0],
                          argv := [Some 0, Some 4, Some 7]\<rparr>)
   \<and> length (tok_out 0 (take 4 (bytes_of ''\"a\" bc d''))) = 2
   \<and> c_string (drop 2 [0x61, 0, 0x62, 0x63, 0, 0x64, 0, 0x64, 0]) = bytes_of ''bc''
   \<and> arg_string (example_shell\<lparr>buffer := [0x61, 0, 0x62, 0x63, 0, 0x64, 0, 0x64, 0],
                                argv := [Some 0, Some 4, Some 7]\<rparr>) 1 = Some []"
  by code_simp

text \<open>
  C4. The claim is that every pointer stored in \<open>argv\<close> is an index below
  \<open>ESH_BUFFER_LEN\<close>. After an input overflow \<open>cnt\<close> is \<open>ESH_BUFFER_LEN + 1\<close> and the
  loop also visits the terminator at index \<open>ESH_BUFFER_LEN\<close>; NUL is not a space, so after
  an unquoted space it starts a token there. With a four-byte buffer, typing \<open>"a" x\<close>
  and newline calls the callback with \<open>argc = 2\<close> and \<open>argv[1]\<close> pointing at index
  4 = \<open>ESH_BUFFER_LEN\<close>.
\<close>

theorem argv_reaches_terminator_slot:
  "feed tiny_config tiny_shell (bytes_of ''\"a\" x'' @ [0x0A])
     = Inr (map (\<lambda>x. Print [x]) (bytes_of ''\"a\" '')
              @ Overflow [0x22, 0x61, 0x22, 0x20, 0] # map (\<lambda>x. Print [x]) overflow_message
              @ [Print [0x0A], Callback 2 [Some 0, Some 4, None] [0x61, 0, 0, 0, 0],
                 Print [0x25], Print [0x20]],
            tiny_shell\<lparr>buffer := [0x61, 0, 0, 0, 0], argv := [Some 0, Some 4, None]\<rparr>)
   \<and> [Some 0, Some 4, None] ! 1 = Some (ESH_BUFFER_LEN tiny_config)"
  by code_simp

text \<open>
  C10. The claim is that every store of the tokenizer is at an index of at most
  \<open>ESH_BUFFER_LEN\<close>. After an input overflow of a line without quote characters the
  write cursor ends at \<open>cnt = ESH_BUFFER_LEN + 1\<close>, and the final terminator is stored
  there, one past the end of the array: with a four-byte buffer, typing \<open>abcde\<close> and
  newline ends in that store at index 5.
\<close>

theorem terminator_stored_out_of_bounds:
  "feed tiny_config tiny_shell (bytes_of ''abcde'')
     = Inr (map (\<lambda>x. Print [x]) (bytes_of ''abcd'')
              @ Overflow (bytes_of ''abcd'' @ [0]) # map (\<lambda>x. Print [x]) overflow_message,
            tiny_shell\<lparr>buffer := bytes_of ''abcd'' @ [0], cnt := 5\<rparr>)
   \<and> make_arg_array tiny_config (tiny_shell\<lparr>buffer := bytes_of ''abcd'' @ [0], cnt := 5\<rparr>)
       = Inl (Out_of_bounds (ESH_BUFFER_LEN tiny_config + 1))
   \<and> feed tiny_config tiny_shell (bytes_of ''abcde'' @ [0x0A])
       = Inl (Out_of_bounds (ESH_BUFFER_LEN tiny_config + 1))"
  by code_simp

section \<open>Invariants of the context\<close>

lemma wf_tokenized: "wf c s \<Longrightarrow> wf c (tokenized c s)"
  using length_tok_out[of 0 "take (cnt s) (buffer s)"]
  by (simp add: wf_def tokenized_def Let_def)

lemma no_escape_iff:
  "no_escape s \<longleftrightarrow> flags s AND IN_BRACKET_ESCAPE = 0 \<and> flags s AND IN_ESCAPE = 0"
proof
  assume "no_escape s"
  then show "flags s AND IN_BRACKET_ESCAPE = 0 \<and> flags s AND IN_ESCAPE = 0"
    by (simp add: no_escape_bits)
next
  assume "flags s AND IN_BRACKET_ESCAPE = 0 \<and> flags s AND IN_ESCAPE = 0"
  then show "no_escape s"
    by (simp add: no_escape_def bit.conj_disj_distrib)
qed

lemma bnd_Inr_iff:
  "bnd m f = Inr (ev, u) \<longleftrightarrow>
     (\<exists>e1 x e2. m = Inr (e1, x) \<and> f x = Inr (e2, u) \<and> ev = e1 @ e2)"
  by (auto simp: bnd_def split: sum.splits prod.splits)

lemma execute_command_state:
  assumes "wf c s" and "execute_command c s = Inr (ev, u)"
  shows "u = (tokenized c s)\<lparr>cnt := 0\<rparr>
         \<and> length (tok_out 0 (take (cnt s) (buffer s))) \<le> ESH_BUFFER_LEN c"
  using assms
  by (auto simp: execute_command_def make_arg_array_closed bnd_Inr_iff
      split: if_splits sum.splits prod.splits)

lemma handle_char_state:
  assumes "wf c s" and "handle_char c s x = Inr (ev, u)"
  shows "u = (if cnt s > ESH_BUFFER_LEN c \<or> (cnt s = ESH_BUFFER_LEN c \<and> \<not> (x = 8 \<or> x = 127))
              then s\<lparr>cnt := ESH_BUFFER_LEN c + 1, buffer := (buffer s)[ESH_BUFFER_LEN c := 0]\<rparr>
              else if x = 8 \<or> x = 127 then (if cnt s \<noteq> 0 then s\<lparr>cnt := cnt s - 1\<rparr> else s)
              else s\<lparr>buffer := (buffer s)[cnt s := x], cnt := cnt s + 1\<rparr>)"
  using assms
  by (auto simp: handle_char_def Let_def bnd_Inr_iff store_def wf_def
      split: if_splits sum.splits prod.splits)

lemma esh_rx_wf:
  assumes "wf c s" and "esh_rx c s x = Inr (ev, u)"
  shows "wf c u"
proof -
  consider (esc) "\<not> no_escape s" | (nl) "no_escape s" "x = 0x0A"
    | (zero) "no_escape s" "x = 0" | (e) "no_escape s" "x = 0x1B"
    | (ch) "no_escape s" "x \<noteq> 0" "x \<noteq> 0x1B" "x \<noteq> 0x0A"
    by blast
  then show ?thesis
  proof cases
    case esc
    then show ?thesis
      using assms by (auto simp: esh_rx_def wf_def no_escape_iff split: if_splits)
  next
    case nl
    then have "\<exists>e1 e2. execute_command c s = Inr (e2, u)"
      using assms(2) by (auto simp: esh_rx_def no_escape_bits bnd_Inr_iff)
    then show ?thesis
      using execute_command_state[OF assms(1)] wf_tokenized[OF assms(1)]
      by (auto simp: wf_def)
  next
    case zero
    then show ?thesis using assms by (simp add: esh_rx_def no_escape_bits)
  next
    case e
    then show ?thesis using assms by (auto simp: esh_rx_def no_escape_bits wf_def)
  next
    case ch
    then have "handle_char c s x = Inr (ev, u)"
      using assms(2) by (simp add: esh_rx_plain)
    from handle_char_state[OF assms(1) this] show ?thesis
      using assms(1) by (auto simp: wf_def split: if_splits)
  qed
qed

lemma handle_char_closed:
  assumes "wf c s" and "print s" and "x \<noteq> 0"
  shows "handle_char c s x =
     Inr (if cnt s > ESH_BUFFER_LEN c \<or> (cnt s = ESH_BUFFER_LEN c \<and> \<not> (x = 8 \<or> x = 127))
          then (overflow_events s ((buffer s)[ESH_BUFFER_LEN c := 0]),
                s\<lparr>cnt := ESH_BUFFER_LEN c + 1, buffer := (buffer s)[ESH_BUFFER_LEN c := 0]\<rparr>)
          else if x = 8 \<or> x = 127
          then (if cnt s \<noteq> 0 then ([Print [0x08, 0x20, 0x08]], s\<lparr>cnt := cnt s - 1\<rparr>)
                else ([], s))
          else ([Print [x]], s\<lparr>buffer := (buffer s)[cnt s := x], cnt := cnt s + 1\<rparr>))"
  using assms
  by (auto simp: handle_char_def Let_def bnd_def store_def wf_def call_overflow_ok
      call_print_def c_string_def esh_putc_ok)

lemma esh_rx_hooks:
  assumes "wf c s" and "esh_rx c s x = Inr (ev, u)"
  shows "print u = print s \<and> callback u = callback s \<and> overflow u = overflow s"
proof -
  consider (esc) "\<not> no_escape s" | (nl) "no_escape s" "x = 0x0A"
    | (zero) "no_escape s" "x = 0" | (e) "no_escape s" "x = 0x1B"
    | (ch) "no_escape s" "x \<noteq> 0" "x \<noteq> 0x1B" "x \<noteq> 0x0A"
    by blast
  then show ?thesis
  proof cases
    case esc
    then show ?thesis
      using assms by (auto simp: esh_rx_def no_escape_iff split: if_splits)
  next
    case nl
    then have "\<exists>e2. execute_command c s = Inr (e2, u)"
      using assms(2) by (auto simp: esh_rx_def no_escape_bits bnd_Inr_iff)
    then show ?thesis
      using execute_command_state[OF assms(1)] by auto
  next
    case zero
    then show ?thesis using assms by (simp add: esh_rx_def no_escape_bits)
  next
    case e
    then show ?thesis using assms by (auto simp: esh_rx_def no_escape_bits)
  next
    case ch
    then have "handle_char c s x = Inr (ev, u)"
      using assms(2) by (simp add: esh_rx_plain)
    from handle_char_state[OF assms(1) this] show ?thesis
      by (auto split: if_splits)
  qed
qed

lemma feed_append:
  "feed c s (xs @ ys) = bnd (feed c s xs) (\<lambda>s'. feed c s' ys)"
proof (induction xs arbitrary: s)
  case Nil
  show ?case by (simp add: bnd_def split: sum.splits prod.splits)
next
  case (Cons x xs)
  show ?case
    by (simp add: Cons bnd_def split: sum.splits prod.splits)
qed

lemma feed_single: "feed c s [x] = esh_rx c s x"
  by (simp add: bnd_def split: sum.splits prod.splits)

lemma feed_wf:
  assumes "wf c s" and "feed c s xs = Inr (ev, u)"
  shows "wf c u \<and> print u = print s \<and> callback u = callback s \<and> overflow u = overflow s"
  using assms
proof (induction xs arbitrary: s ev)
  case Nil
  then show ?case by simp
next
  case (Cons x xs)
  from Cons.prems(2) obtain e1 s1 e2 where
    1: "esh_rx c s x = Inr (e1, s1)" and 2: "feed c s1 xs = Inr (e2, u)"
    by (auto simp: bnd_Inr_iff)
  have "wf c s1" by (rule esh_rx_wf[OF Cons.prems(1) 1])
  from Cons.IH[OF this 2] esh_rx_hooks[OF Cons.prems(1) 1] show ?case by simp
qed

section \<open>Feeding the same line twice\<close>

lemma replay_rel_fields:
  assumes "replay_rel s0 s0' t t'"
  shows "cnt t' = cnt t" "flags t' = flags t" "print t' = print t" "callback t' = callback t"
    "overflow t' = overflow t" "length (buffer t') = length (buffer t)"
    "argv t = argv s0" "argv t' = argv s0'"
  using assms by (simp_all add: replay_rel_def)

lemma replay_rel_nth:
  assumes "replay_rel s0 s0' t t'" and "p < length (buffer t)"
  shows "buffer t ! p = buffer t' ! p
         \<or> (cnt t \<le> p \<and> buffer t ! p = buffer s0 ! p \<and> buffer t' ! p = buffer s0' ! p)"
  using assms unfolding replay_rel_def by blast

lemma replay_rel_synced:
  assumes "replay_rel s0 s0' t t'" and "p < cnt t" and "p < length (buffer t)"
  shows "buffer t ! p = buffer t' ! p"
  using replay_rel_nth[OF assms(1,3)] assms(2) by auto

lemma replay_relI:
  assumes "replay_rel s0 s0' t t'"
    and "cnt u' = cnt u" "flags u' = flags u" "print u = print t" "print u' = print t'"
    and "callback u = callback t" "callback u' = callback t'"
    and "overflow u = overflow t" "overflow u' = overflow t'"
    and "length (buffer u) = length (buffer t)" "length (buffer u') = length (buffer t)"
    and "argv u = argv t" "argv u' = argv t'"
    and "\<And>p. p < length (buffer t) \<Longrightarrow>
           buffer u ! p = buffer u' ! p
           \<or> (cnt u \<le> p \<and> buffer u ! p = buffer s0 ! p \<and> buffer u' ! p = buffer s0' ! p)"
  shows "replay_rel s0 s0' u u'"
  using assms(2-) replay_rel_fields[OF assms(1)] unfolding replay_rel_def by simp

lemma replay_rel_flags:
  assumes "replay_rel s0 s0' t t'"
  shows "replay_rel s0 s0' (t\<lparr>flags := f\<rparr>) (t'\<lparr>flags := f\<rparr>)"
proof (rule replay_relI[OF assms])
  fix p assume "p < length (buffer t)"
  from replay_rel_nth[OF assms this]
  show "buffer (t\<lparr>flags := f\<rparr>) ! p = buffer (t'\<lparr>flags := f\<rparr>) ! p
        \<or> (cnt (t\<lparr>flags := f\<rparr>) \<le> p \<and> buffer (t\<lparr>flags := f\<rparr>) ! p = buffer s0 ! p
            \<and> buffer (t'\<lparr>flags := f\<rparr>) ! p = buffer s0' ! p)"
    by simp
qed (simp_all add: replay_rel_fields[OF assms])

lemma replay_rel_bksp:
  assumes "replay_rel s0 s0' t t'"
  shows "replay_rel s0 s0' (t\<lparr>cnt := cnt t - 1\<rparr>) (t'\<lparr>cnt := cnt t' - 1\<rparr>)"
proof (rule replay_relI[OF assms])
  fix p assume "p < length (buffer t)"
  from replay_rel_nth[OF assms this]
  show "buffer (t\<lparr>cnt := cnt t - 1\<rparr>) ! p = buffer (t'\<lparr>cnt := cnt t' - 1\<rparr>) ! p
        \<or> (cnt (t\<lparr>cnt := cnt t - 1\<rparr>) \<le> p
            \<and> buffer (t\<lparr>cnt := cnt t - 1\<rparr>) ! p = buffer s0 ! p
            \<and> buffer (t'\<lparr>cnt := cnt t' - 1\<rparr>) ! p = buffer s0' ! p)"
    by auto
qed (simp_all add: replay_rel_fields[OF assms])

lemma replay_rel_store:
  assumes "replay_rel s0 s0' t t'" and "cnt t < length (buffer t)"
  shows "replay_rel s0 s0' (t\<lparr>buffer := (buffer t)[cnt t := x], cnt := cnt t + 1\<rparr>)
                           (t'\<lparr>buffer := (buffer t')[cnt t' := x], cnt := cnt t' + 1\<rparr>)"
proof (rule replay_relI[OF assms(1)])
  note f = replay_rel_fields[OF assms(1)]
  fix p assume p: "p < length (buffer t)"
  show "buffer (t\<lparr>buffer := (buffer t)[cnt t := x], cnt := cnt t + 1\<rparr>) ! p
          = buffer (t'\<lparr>buffer := (buffer t')[cnt t' := x], cnt := cnt t' + 1\<rparr>) ! p
        \<or> (cnt (t\<lparr>buffer := (buffer t)[cnt t := x], cnt := cnt t + 1\<rparr>) \<le> p
            \<and> buffer (t\<lparr>buffer := (buffer t)[cnt t := x], cnt := cnt t + 1\<rparr>) ! p
                = buffer s0 ! p
            \<and> buffer (t'\<lparr>buffer := (buffer t')[cnt t' := x], cnt := cnt t' + 1\<rparr>) ! p
                = buffer s0' ! p)"
  proof (cases "p = cnt t")
    case True
    then show ?thesis using p f(1,6) by simp
  next
    case False
    then show ?thesis
      using replay_rel_nth[OF assms(1) p] f(1) by auto
  qed
qed (simp_all add: replay_rel_fields[OF assms(1)])

lemma replay_rel_same_head:
  assumes "replay_rel s0 s0' t t'" and "n \<le> cnt t" and "n \<le> length (buffer t)"
  shows "take n (buffer t) = take n (buffer t')"
  using assms(2,3) replay_rel_synced[OF assms(1)] replay_rel_fields(6)[OF assms(1)]
  by (simp add: list_eq_iff_nth_eq)

lemma replay_rel_terminate:
  assumes "replay_rel s0 s0' t t'" and "n \<le> cnt t" and "length (buffer t) = n + 1"
  shows "(buffer t)[n := v] = (buffer t')[n := v]"
proof -
  have "(buffer t)[n := v] ! p = (buffer t')[n := v] ! p" if "p < length (buffer t)" for p
  proof (cases "p = n")
    case True
    then show ?thesis using that replay_rel_fields(6)[OF assms(1)] by simp
  next
    case False
    then have "p < cnt t" using that assms(2,3) by simp
    from replay_rel_synced[OF assms(1) this that] False show ?thesis by simp
  qed
  then show ?thesis
    using replay_rel_fields(6)[OF assms(1)] by (simp add: list_eq_iff_nth_eq)
qed

lemma replay_rel_same_buffer:
  assumes "replay_rel s0 s0' t t'" and "length b = length (buffer t)"
  shows "replay_rel s0 s0' (t\<lparr>cnt := n, buffer := b\<rparr>) (t'\<lparr>cnt := n, buffer := b\<rparr>)"
  using assms(2) by (intro replay_relI[OF assms(1)]) (simp_all add: replay_rel_fields[OF assms(1)])

lemma replay_step:
  assumes r: "replay_rel s0 s0' t t'" and w: "wf c t" "wf c t'" and p: "print t"
    and nn: "\<not> (x = 0x0A \<and> no_escape t)" and rx: "esh_rx c t x = Inr (ev, u)"
  shows "\<exists>u'. esh_rx c t' x = Inr (ev, u') \<and> replay_rel s0 s0' u u'"
proof -
  have f: "flags t' = flags t" and p': "print t'" and c: "cnt t' = cnt t"
    and o: "overflow t' = overflow t"
    using r p by (simp_all add: replay_rel_def)
  have ne: "no_escape t' = no_escape t"
    by (simp add: no_escape_def f)
  consider (esc) "\<not> no_escape t"
    | (zero) "no_escape t" "x = 0" | (e) "no_escape t" "x = 0x1B"
    | (ch) "no_escape t" "x \<noteq> 0" "x \<noteq> 0x1B" "x \<noteq> 0x0A"
    using nn by blast
  then show ?thesis
  proof cases
    case esc
    then show ?thesis
      using rx r f by (auto simp: esh_rx_def no_escape_iff replay_rel_flags split: if_splits)
  next
    case zero
    then show ?thesis
      using rx r f ne by (auto simp: esh_rx_def no_escape_bits)
  next
    case e
    then show ?thesis
      using rx r f ne by (auto simp: esh_rx_def no_escape_bits replay_rel_flags)
  next
    case ch
    have len: "length (buffer t) = ESH_BUFFER_LEN c + 1"
      using w(1) by (simp add: wf_def)
    have h: "handle_char c t x = Inr (ev, u)"
      using rx ch by (simp add: esh_rx_plain)
    have rx': "esh_rx c t' x = handle_char c t' x"
      using ch ne by (simp add: esh_rx_plain)
    consider (ovf) "cnt t > ESH_BUFFER_LEN c \<or> (cnt t = ESH_BUFFER_LEN c \<and> \<not> (x = 8 \<or> x = 127))"
      | (bk) "\<not> (cnt t > ESH_BUFFER_LEN c \<or> (cnt t = ESH_BUFFER_LEN c \<and> \<not> (x = 8 \<or> x = 127)))"
             "x = 8 \<or> x = 127"
      | (st) "\<not> (cnt t > ESH_BUFFER_LEN c \<or> (cnt t = ESH_BUFFER_LEN c \<and> \<not> (x = 8 \<or> x = 127)))"
             "\<not> (x = 8 \<or> x = 127)"
      by blast
    then show ?thesis
    proof cases
      case ovf
      have b: "(buffer t)[ESH_BUFFER_LEN c := 0] = (buffer t')[ESH_BUFFER_LEN c := 0]"
        using ovf len by (intro replay_rel_terminate[OF r]) auto
      have oe: "overflow_events t' = overflow_events t"
        by (simp add: overflow_events_def o fun_eq_iff)
      show ?thesis
        unfolding rx'
        using h ovf replay_rel_same_buffer[OF r, of "(buffer t)[ESH_BUFFER_LEN c := 0]"]
        by (auto simp: handle_char_closed[OF w(1) p ch(2)] handle_char_closed[OF w(2) p' ch(2)]
            c b[symmetric] oe)
    next
      case bk
      show ?thesis
        unfolding rx'
        using h bk replay_rel_bksp[OF r] r
        by (auto simp: handle_char_closed[OF w(1) p ch(2)] handle_char_closed[OF w(2) p' ch(2)]
            c)
    next
      case st
      then have "cnt t < length (buffer t)"
        using len by auto
      from replay_rel_store[OF r this, of x] show ?thesis
        unfolding rx'
        using h st
        by (auto simp: handle_char_closed[OF w(1) p ch(2)] handle_char_closed[OF w(2) p' ch(2)]
            c)
    qed
  qed
qed

lemma replay_feed:
  assumes "replay_rel s0 s0' t t'" and "wf c t" and "wf c t'" and "print t"
    and "0x0A \<notin> set xs" and "feed c t xs = Inr (ev, u)"
  shows "\<exists>u'. feed c t' xs = Inr (ev, u') \<and> replay_rel s0 s0' u u'"
  using assms
proof (induction xs arbitrary: t t' ev)
  case Nil
  then show ?case by simp
next
  case (Cons x xs)
  from Cons.prems(6) obtain e1 t1 e2 where
    1: "esh_rx c t x = Inr (e1, t1)" and 2: "feed c t1 xs = Inr (e2, u)" and ev: "ev = e1 @ e2"
    by (auto simp: bnd_Inr_iff)
  have "\<not> (x = 0x0A \<and> no_escape t)"
    using Cons.prems(5) by simp
  from replay_step[OF Cons.prems(1,2,3,4) this 1] obtain t1' where
    3: "esh_rx c t' x = Inr (e1, t1')" and 4: "replay_rel s0 s0' t1 t1'"
    by blast
  have w: "wf c t1" "wf c t1'" "print t1"
    using esh_rx_wf[OF Cons.prems(2) 1] esh_rx_wf[OF Cons.prems(3) 3]
      esh_rx_hooks[OF Cons.prems(2) 1] Cons.prems(4) by simp_all
  from Cons.IH[OF 4 w _ 2] Cons.prems(5) obtain u' where
    "feed c t1' xs = Inr (e2, u')" "replay_rel s0 s0' u u'"
    by auto
  then show ?case
    by (simp add: 3 ev bnd_def)
qed

lemma replay_rel_fix:
  assumes "replay_rel s s1 s1 s2"
  shows "s2 = s1"
proof (rule esh.equality)
  note f = replay_rel_fields[OF assms]
  show "buffer s2 = buffer s1"
  proof (rule nth_equalityI)
    show "length (buffer s2) = length (buffer s1)" by (rule f(6))
    fix p assume "p < length (buffer s2)"
    then have "p < length (buffer s1)" by (simp add: f(6))
    from replay_rel_nth[OF assms this] show "buffer s2 ! p = buffer s1 ! p" by auto
  qed
  show "argv s2 = argv s1" by (rule f(8))
qed (simp_all add: replay_rel_fields[OF assms])

lemma nth_overwrite_0:
  assumes "length out \<le> length b"
  shows "overwrite 0 out b ! p = (if p < length out then out ! p else b ! p)"
  using assms by (simp add: overwrite_def nth_append)

lemma put_args_idem:
  assumes "length a = m"
  shows "put_args m 0 ps (put_args m 0 ps a) = put_args m 0 ps a"
  using assms by (intro nth_equalityI) (simp_all add: nth_put_args)

lemma newline_closed:
  assumes "wf c t" and "no_escape t" and "print t" and "callback t"
  shows "esh_rx c t 0x0A =
     (if length (tok_out 0 (take (cnt t) (buffer t))) \<le> ESH_BUFFER_LEN c
      then Inr (Print [0x0A]
                  # (if token_count (take (cnt t) (buffer t)) > ESH_ARGC_MAX c
                     then overflow_events t (buffer (tokenized c t))
                     else if token_count (take (cnt t) (buffer t)) > 0
                     then [Callback (token_count (take (cnt t) (buffer t)))
                             (argv (tokenized c t)) (buffer (tokenized c t))]
                     else [])
                  @ map (\<lambda>x. Print [x]) (c_string (ESH_PROMPT c)),
                (tokenized c t)\<lparr>cnt := 0\<rparr>)
      else Inl (Out_of_bounds (length (tok_out 0 (take (cnt t) (buffer t))))))"
proof (cases "length (tok_out 0 (take (cnt t) (buffer t))) \<le> ESH_BUFFER_LEN c")
  case True
  then have m: "make_arg_array c t = Inr (token_count (take (cnt t) (buffer t)), tokenized c t)"
    by (simp add: make_arg_array_closed[OF assms(1)])
  have oe: "overflow_events (tokenized c t) = overflow_events t"
    by (simp add: overflow_events_def fun_eq_iff)
  show ?thesis
    using assms(2,3,4) True
    by (simp add: esh_rx_def no_escape_bits esh_putc_ok bnd_def execute_command_closed[OF m] oe)
next
  case False
  then show ?thesis
    using assms(2,3)
    by (simp add: esh_rx_def no_escape_bits esh_putc_ok bnd_def execute_command_def
        make_arg_array_closed[OF assms(1)])
qed

lemma replay_tokenized:
  assumes r: "replay_rel s s1 t t'" and w: "wf c t" "wf c t'"
    and s1: "s1 = (tokenized c t)\<lparr>cnt := 0\<rparr>"
  shows "take (cnt t') (buffer t') = take (cnt t) (buffer t)" and "tokenized c t' = tokenized c t"
proof -
  note f = replay_rel_fields[OF r]
  define line where "line = take (cnt t) (buffer t)"
  define out where "out = tok_out 0 line"
  have len: "length (buffer t) = ESH_BUFFER_LEN c + 1" "length (buffer t') = ESH_BUFFER_LEN c + 1"
    "cnt t \<le> length (buffer t)" "length (argv t) = ESH_ARGC_MAX c"
    using w by (simp_all add: wf_def)
  show line': "take (cnt t') (buffer t') = take (cnt t) (buffer t)"
    using replay_rel_same_head[OF r, of "cnt t"] len(3) by (simp add: f(1))
  have ol: "length out \<le> length (buffer t)"
    using length_tok_out[of 0 line] len(3) by (simp add: out_def line_def)
  have b1: "buffer s1 = (overwrite 0 out (buffer t))[length out := 0, ESH_BUFFER_LEN c := 0]"
    by (simp add: s1 tokenized_def Let_def out_def line_def)
  have a1: "argv s1 = put_args (ESH_ARGC_MAX c) 0 (token_starts line) (argv t)"
    by (simp add: s1 tokenized_def Let_def line_def)
  have bt: "buffer (tokenized c t)
              = (overwrite 0 out (buffer t))[length out := 0, ESH_BUFFER_LEN c := 0]"
    by (simp add: tokenized_def Let_def out_def line_def)
  have bt': "buffer (tokenized c t')
              = (overwrite 0 out (buffer t'))[length out := 0, ESH_BUFFER_LEN c := 0]"
    by (simp add: tokenized_def Let_def out_def line_def line')
  have at': "argv (tokenized c t')
              = put_args (ESH_ARGC_MAX c) 0 (token_starts line) (argv t')"
    by (simp add: tokenized_def Let_def line_def line')
  have at: "argv (tokenized c t)
              = put_args (ESH_ARGC_MAX c) 0 (token_starts line) (argv t)"
    by (simp add: tokenized_def Let_def line_def)
  have buf: "buffer (tokenized c t') = buffer (tokenized c t)"
  proof (rule nth_equalityI)
    show "length (buffer (tokenized c t')) = length (buffer (tokenized c t))"
      using ol len by (simp add: bt bt')
    fix p assume "p < length (buffer (tokenized c t'))"
    then have p: "p < length (buffer t)"
      using ol len by (simp add: bt')
    show "buffer (tokenized c t') ! p = buffer (tokenized c t) ! p"
    proof (cases "p = ESH_BUFFER_LEN c \<or> p = length out \<or> p < length out")
      case True
      then show ?thesis
        using p ol len by (auto simp: bt bt' nth_list_update nth_overwrite_0)
    next
      case False
      then have e: "buffer (tokenized c t') ! p = buffer t' ! p"
        "buffer (tokenized c t) ! p = buffer t ! p"
        using p ol len by (simp_all add: bt bt' nth_list_update nth_overwrite_0)
      have "buffer s1 ! p = buffer t ! p"
        using e(2) by (simp add: b1 bt)
      with replay_rel_nth[OF r p] show ?thesis
        unfolding e by auto
    qed
  qed
  have arg: "argv (tokenized c t') = argv (tokenized c t)"
    unfolding at' at f(8) a1 using f(7) len(4) by (simp add: put_args_idem)
  show "tokenized c t' = tokenized c t"
    by (rule esh.equality) (simp_all add: buf arg f)
qed

lemma feed_plain:
  assumes "wf c t" and "no_escape t" and "print t"
    and "0x1B \<notin> set xs" and "0x0A \<notin> set xs" and "cnt t + length xs \<le> ESH_BUFFER_LEN c"
  shows "\<exists>ev u. feed c t xs = Inr (ev, u) \<and> flags u = flags t \<and> cnt u \<le> cnt t + length xs"
  using assms
proof (induction xs arbitrary: t)
  case Nil
  then show ?case by simp
next
  case (Cons x xs)
  have "\<exists>e1 t1. esh_rx c t x = Inr (e1, t1) \<and> flags t1 = flags t \<and> cnt t1 \<le> cnt t + 1"
  proof (cases "x = 0")
    case True
    then show ?thesis using Cons.prems(2) by (simp add: esh_rx_def no_escape_bits)
  next
    case False
    then have "esh_rx c t x = handle_char c t x"
      using Cons.prems(2,4,5) by (intro esh_rx_plain) auto
    then show ?thesis
      using Cons.prems(6) by (auto simp: handle_char_closed[OF Cons.prems(1,3) False])
  qed
  then obtain e1 t1 where 1: "esh_rx c t x = Inr (e1, t1)" and f: "flags t1 = flags t"
    and c: "cnt t1 \<le> cnt t + 1"
    by blast
  have w: "wf c t1" "no_escape t1" "print t1"
    using esh_rx_wf[OF Cons.prems(1) 1] esh_rx_hooks[OF Cons.prems(1) 1] Cons.prems(2,3)
    by (simp_all add: no_escape_def f)
  have "cnt t1 + length xs \<le> ESH_BUFFER_LEN c"
    using c Cons.prems(6) by simp
  from Cons.IH[OF w _ _ this] Cons.prems(4,5) obtain ev u where
    "feed c t1 xs = Inr (ev, u)" "flags u = flags t1" "cnt u \<le> cnt t1 + length xs"
    by auto
  then show ?case
    using c by (simp add: 1 f bnd_def)
qed

text \<open>
  C9, as the code has it. Start with \<open>cnt = 0\<close> and neither escape flag set, and feed a
  line (any bytes but newline) followed by a newline. If the line is free of ESC and no
  longer than \<open>ESH_BUFFER_LEN\<close>, this run completes and ends with \<open>cnt = 0\<close> and the
  flags as before. Whenever the run completes in such a state, feeding the same bytes
  again from the state reached produces exactly the same events (the same echo, the same
  callback or overflow call with the same \<open>argc\<close>, the same pointers and the same buffer
  contents, the same prompt) and ends in the same state. The condition on the state
  reached is needed: a line that ends inside an escape sequence takes the newline with
  it (see the counterexample below). Nothing is said here about a line typed after a
  different one.
\<close>

theorem line_replay:
  assumes "wf c s" and "no_escape s" and "cnt s = 0" and "print s" and "callback s"
    and "0x0A \<notin> set line"
  shows "(0x1B \<notin> set line \<and> length line \<le> ESH_BUFFER_LEN c \<longrightarrow>
            (\<exists>ev s1. feed c s (line @ [0x0A]) = Inr (ev, s1) \<and> cnt s1 = 0 \<and> flags s1 = flags s))
       \<and> (\<forall>ev s1. feed c s (line @ [0x0A]) = Inr (ev, s1) \<and> cnt s1 = 0 \<and> flags s1 = flags s
             \<longrightarrow> feed c s1 (line @ [0x0A]) = Inr (ev, s1))"
proof (intro conjI allI impI)
  assume a: "0x1B \<notin> set line \<and> length line \<le> ESH_BUFFER_LEN c"
  then obtain evA sA where A: "feed c s line = Inr (evA, sA)" and f: "flags sA = flags s"
    and c: "cnt sA \<le> length line"
    using feed_plain[OF assms(1,2,4) _ assms(6), of ] assms(3) by auto
  have w: "wf c sA" "print sA" "callback sA" "no_escape sA"
    using feed_wf[OF assms(1) A] assms(2,4,5) by (simp_all add: no_escape_def f)
  have "length (tok_out 0 (take (cnt sA) (buffer sA))) \<le> ESH_BUFFER_LEN c"
    using length_tok_out[of 0 "take (cnt sA) (buffer sA)"] c a by simp
  then obtain evB where B: "esh_rx c sA 0x0A = Inr (evB, (tokenized c sA)\<lparr>cnt := 0\<rparr>)"
    by (simp add: newline_closed[OF w(1,4,2,3)])
  have "feed c s (line @ [0x0A]) = Inr (evA @ evB, (tokenized c sA)\<lparr>cnt := 0\<rparr>)"
    by (simp add: feed_append A B bnd_def)
  then show "\<exists>ev s1. feed c s (line @ [0x0A]) = Inr (ev, s1) \<and> cnt s1 = 0 \<and> flags s1 = flags s"
    using f by simp
next
  fix ev s1
  assume h: "feed c s (line @ [0x0A]) = Inr (ev, s1) \<and> cnt s1 = 0 \<and> flags s1 = flags s"
  then obtain evA sA evB where A: "feed c s line = Inr (evA, sA)"
    and B: "esh_rx c sA 0x0A = Inr (evB, s1)" and ev: "ev = evA @ evB"
    by (auto simp: feed_append bnd_Inr_iff)
  have ws1: "wf c s1" "print s1 = print s" "callback s1 = callback s" "overflow s1 = overflow s"
    using feed_wf[OF assms(1), of "line @ [0x0A]" ev s1] h by simp_all
  have r0: "replay_rel s s1 s s1"
    using h assms(1,3) ws1 by (simp add: replay_rel_def wf_def)
  from replay_feed[OF r0 assms(1) ws1(1) assms(4,6) A] obtain sA' where
    A': "feed c s1 line = Inr (evA, sA')" and r: "replay_rel s s1 sA sA'"
    by blast
  have w: "wf c sA" "print sA" "callback sA" "wf c sA'"
    using feed_wf[OF assms(1) A] feed_wf[OF ws1(1) A'] assms(4,5) by simp_all
  have B': "esh_rx c sA' 0x0A = Inr (evB, s1)"
  proof (cases "no_escape sA")
    case False
    then have "\<not> (0x0A = (0x0A :: byte) \<and> no_escape sA)" by simp
    from replay_step[OF r w(1,4,2) this B] obtain s2 where
      2: "esh_rx c sA' 0x0A = Inr (evB, s2)" and "replay_rel s s1 s1 s2"
      by blast
    then show ?thesis
      using replay_rel_fix by simp
  next
    case True
    note f = replay_rel_fields[OF r]
    have s1: "s1 = (tokenized c sA)\<lparr>cnt := 0\<rparr>"
      using B by (simp add: newline_closed[OF w(1) True w(2,3)] split: if_splits)
    note t = replay_tokenized[OF r w(1,4) s1]
    have ne': "no_escape sA'" "print sA'" "callback sA'"
      using True w(2,3) by (simp_all add: no_escape_def f)
    have oe: "overflow_events sA' = overflow_events sA"
      by (simp add: overflow_events_def f fun_eq_iff)
    show ?thesis
      using B unfolding newline_closed[OF w(1) True w(2,3)] newline_closed[OF w(4) ne'] t oe
      by simp
  qed
  show "feed c s1 (line @ [0x0A]) = Inr (ev, s1)"
    by (simp add: feed_append A' B' ev bnd_def)
qed

theorem line_replay_witness:
  "feed example_config example_shell (typed_line @ [0x0A])
     = Inr (map Print [[0x61], [0x62], [0x78], [0x08, 0x20, 0x08], [0x20], [0x22], [0x63],
                       [0x20], [0x64], [0x22], [0x0A]]
              @ [Callback 2 [Some 0, Some 3, None] [0x61, 0x62, 0, 0x63, 0x20, 0x64, 0, 0x22, 0],
                 Print [0x25], Print [0x20]],
            example_shell\<lparr>buffer := [0x61, 0x62, 0, 0x63, 0x20, 0x64, 0, 0x22, 0],
                          argv := [Some 0, Some 3, None]\<rparr>)
   \<and> feed example_config
         (example_shell\<lparr>buffer := [0x61, 0x62, 0, 0x63, 0x20, 0x64, 0, 0x22, 0],
                        argv := [Some 0, Some 3, None]\<rparr>)
         (typed_line @ [0x0A])
     = Inr (map Print [[0x61], [0x62], [0x78], [0x08, 0x20, 0x08], [0x20], [0x22], [0x63],
                       [0x20], [0x64], [0x22], [0x0A]]
              @ [Callback 2 [Some 0, Some 3, None] [0x61, 0x62, 0, 0x63, 0x20, 0x64, 0, 0x22, 0],
                 Print [0x25], Print [0x20]],
            example_shell\<lparr>buffer := [0x61, 0x62, 0, 0x63, 0x20, 0x64, 0, 0x22, 0],
                          argv := [Some 0, Some 3, None]\<rparr>)
   \<and> (\<exists>ev s1. feed example_config example_shell (bytes_of ''ab \"c d\"'' @ [0x0A]) = Inr (ev, s1)
          \<and> cnt s1 = 0 \<and> flags s1 = flags example_shell)"
proof -
  have w: "wf example_config example_shell" "no_escape example_shell" "cnt example_shell = 0"
    "print example_shell" "callback example_shell" "0x0A \<notin> set typed_line"
    by (simp_all add: wf_def example_config_def example_shell_def esh_init_def no_escape_def
        esh_register_print_def esh_register_callback_def typed_line_def bytes_of_def)
  have 1: "feed example_config example_shell (typed_line @ [0x0A])
     = Inr (map Print [[0x61], [0x62], [0x78], [0x08, 0x20, 0x08], [0x20], [0x22], [0x63],
                       [0x20], [0x64], [0x22], [0x0A]]
              @ [Callback 2 [Some 0, Some 3, None] [0x61, 0x62, 0, 0x63, 0x20, 0x64, 0, 0x22, 0],
                 Print [0x25], Print [0x20]],
            example_shell\<lparr>buffer := [0x61, 0x62, 0, 0x63, 0x20, 0x64, 0, 0x22, 0],
                          argv := [Some 0, Some 3, None]\<rparr>)"
    by code_simp
  have 2: "cnt (example_shell\<lparr>buffer := [0x61, 0x62, 0, 0x63, 0x20, 0x64, 0, 0x22, 0],
                          argv := [Some 0, Some 3, None]\<rparr>) = 0"
    "flags (example_shell\<lparr>buffer := [0x61, 0x62, 0, 0x63, 0x20, 0x64, 0, 0x22, 0],
                          argv := [Some 0, Some 3, None]\<rparr>) = flags example_shell"
    by (simp_all add: w(3))
  have p: "0x0A \<notin> set (bytes_of ''ab \"c d\"'')"
    "0x1B \<notin> set (bytes_of ''ab \"c d\"'')
     \<and> length (bytes_of ''ab \"c d\"'') \<le> ESH_BUFFER_LEN example_config"
    by (simp_all add: bytes_of_def example_config_def)
  show ?thesis
    using line_replay[OF w, THEN conjunct2, rule_format, OF conjI[OF 1 conjI[OF 2]]] 1
      line_replay[OF w(1-5) p(1), THEN conjunct1, rule_format, OF p(2)]
    by simp
qed

section \<open>Further facts about overflowed and typed lines\<close>

text \<open>
  The store one past the end of the buffer happens for every line that overflowed the
  input and contains no quote character: the loop then writes as many bytes as it reads.
\<close>

lemma length_tok_out_no_quote:
  assumes "0x22 \<notin> set xs" and "0x27 \<notin> set xs"
  shows "length (tok_out 0 xs) = length xs"
  using assms by (induction xs) (simp_all add: tok_emit_def tok_quote_def)

lemma overflowed_line_faults:
  assumes "wf c s" and "cnt s = ESH_BUFFER_LEN c + 1"
    and "0x22 \<notin> set (buffer s)" and "0x27 \<notin> set (buffer s)"
  shows "make_arg_array c s = Inl (Out_of_bounds (ESH_BUFFER_LEN c + 1))"
proof -
  have "take (cnt s) (buffer s) = buffer s"
    using assms(1,2) by (simp add: wf_def)
  then have "length (tok_out 0 (take (cnt s) (buffer s))) = ESH_BUFFER_LEN c + 1"
    using length_tok_out_no_quote[OF assms(3,4)] assms(1) by (simp add: wf_def)
  then show ?thesis
    by (simp add: make_arg_array_closed[OF assms(1)])
qed

text \<open>
  From \<open>esh_init\<close> on, the context stays well-formed (in particular \<open>cnt\<close> never exceeds
  \<open>ESH_BUFFER_LEN + 1\<close>, see \<open>esh_rx_wf\<close> and \<open>feed_wf\<close>) and the typed bytes below
  \<open>cnt\<close> are never NUL.
\<close>

lemma wf_init: "wf c (esh_init c)"
  by (simp add: wf_def esh_init_def)

lemma nul_free_init: "nul_free c (esh_init c)"
  by (simp add: nul_free_def esh_init_def)

lemma esh_rx_nul_free:
  assumes "wf c s" and "nul_free c s" and "esh_rx c s x = Inr (ev, u)"
  shows "nul_free c u"
proof -
  consider (esc) "\<not> no_escape s" | (nl) "no_escape s" "x = 0x0A"
    | (zero) "no_escape s" "x = 0" | (e) "no_escape s" "x = 0x1B"
    | (ch) "no_escape s" "x \<noteq> 0" "x \<noteq> 0x1B" "x \<noteq> 0x0A"
    by blast
  then show ?thesis
  proof cases
    case esc
    then show ?thesis
      using assms by (auto simp: esh_rx_def no_escape_iff nul_free_def split: if_splits)
  next
    case nl
    then have "\<exists>e2. execute_command c s = Inr (e2, u)"
      using assms(3) by (auto simp: esh_rx_def no_escape_bits bnd_Inr_iff)
    then show ?thesis
      using execute_command_state[OF assms(1)] by (auto simp: nul_free_def)
  next
    case zero
    then show ?thesis using assms by (simp add: esh_rx_def no_escape_bits)
  next
    case e
    then show ?thesis using assms by (auto simp: esh_rx_def no_escape_bits nul_free_def)
  next
    case ch
    then have h: "handle_char c s x = Inr (ev, u)"
      using assms(3) by (simp add: esh_rx_plain)
    have len: "length (buffer s) = ESH_BUFFER_LEN c + 1"
      using assms(1) by (simp add: wf_def)
    consider (ovf) "cnt s > ESH_BUFFER_LEN c \<or> (cnt s = ESH_BUFFER_LEN c \<and> \<not> (x = 8 \<or> x = 127))"
      | (bk) "\<not> (cnt s > ESH_BUFFER_LEN c \<or> (cnt s = ESH_BUFFER_LEN c \<and> \<not> (x = 8 \<or> x = 127)))"
             "x = 8 \<or> x = 127"
      | (st) "\<not> (cnt s > ESH_BUFFER_LEN c \<or> (cnt s = ESH_BUFFER_LEN c \<and> \<not> (x = 8 \<or> x = 127)))"
             "\<not> (x = 8 \<or> x = 127)"
      by blast
    then show ?thesis
    proof cases
      case ovf
      then have "min (cnt s) (ESH_BUFFER_LEN c) = ESH_BUFFER_LEN c" by auto
      then show ?thesis
        using handle_char_state[OF assms(1) h] ovf assms(2) by (simp add: nul_free_def)
    next
      case bk
      have "set (take (min (cnt s - 1) (ESH_BUFFER_LEN c)) (buffer s))
              \<subseteq> set (take (min (cnt s) (ESH_BUFFER_LEN c)) (buffer s))"
        by (intro set_take_subset_set_take) simp
      then show ?thesis
        using handle_char_state[OF assms(1) h] bk assms(2) by (auto simp: nul_free_def)
    next
      case st
      then have c: "cnt s < ESH_BUFFER_LEN c" by auto
      then have "take (min (cnt s + 1) (ESH_BUFFER_LEN c)) ((buffer s)[cnt s := x])
                   = take (cnt s) (buffer s) @ [x]"
        using len by (simp add: min_def take_Suc_conv_app_nth)
      then show ?thesis
        using handle_char_state[OF assms(1) h] st assms(2) c ch(2)
        by (simp add: nul_free_def min_def)
    qed
  qed
qed

lemma feed_nul_free:
  assumes "wf c s" and "nul_free c s" and "feed c s xs = Inr (ev, u)"
  shows "nul_free c u"
  using assms
proof (induction xs arbitrary: s ev)
  case Nil
  then show ?case by simp
next
  case (Cons x xs)
  from Cons.prems(3) obtain e1 s1 e2 where
    1: "esh_rx c s x = Inr (e1, s1)" and 2: "feed c s1 xs = Inr (e2, u)"
    by (auto simp: bnd_Inr_iff)
  show ?case
    by (rule Cons.IH[OF esh_rx_wf[OF Cons.prems(1) 1] esh_rx_nul_free[OF Cons.prems(1,2) 1] 2])
qed

text \<open>
  C9, as claimed, fails. The fresh example shell has \<open>cnt = 0\<close> and no escape flag. The
  line \<open>1\<close> ESC \<open>O\<close> leaves the filter inside a bracket escape, which swallows the
  newline: the first pass only echoes \<open>1\<close>, calls no callback and ends with \<open>cnt = 1\<close>
  and both flags set. In the second pass \<open>1\<close> and ESC are swallowed, \<open>O\<close> ends the
  escape, and the newline dispatches the \<open>1\<close> still in the buffer: the callback is
  called with \<open>argc = 1\<close>. The two passes do not produce the same callback invocations.
\<close>

theorem swallowed_newline_counterexample:
  "cnt example_shell = 0 \<and> no_escape example_shell
   \<and> feed example_config example_shell [0x31, 0x1B, 0x4F, 0x0A]
       = Inr ([Print [0x31]],
              example_shell\<lparr>buffer := [0x31, 0, 0, 0, 0, 0, 0, 0, 0], cnt := 1, flags := 3\<rparr>)
   \<and> feed example_config
         (example_shell\<lparr>buffer := [0x31, 0, 0, 0, 0, 0, 0, 0, 0], cnt := 1, flags := 3\<rparr>)
         [0x31, 0x1B, 0x4F, 0x0A]
       = Inr ([Print [0x0A], Callback 1 [Some 0, None, None] [0x31, 0, 0, 0, 0, 0, 0, 0, 0],
               Print [0x25], Print [0x20]],
              example_shell\<lparr>buffer := [0x31, 0, 0, 0, 0, 0, 0, 0, 0],
                            argv := [Some 0, None, None]\<rparr>)
   \<and> filter is_Callback [Print [0x31]]
       \<noteq> filter is_Callback
           [Print [0x0A], Callback 1 [Some 0, None, None] [0x31, 0, 0, 0, 0, 0, 0, 0, 0],
            Print [0x25], Print [0x20]]"
  by code_simp

text \<open>
  The read-index pointers of \<open>make_arg_array\<close> (see C2) also let bytes of an earlier line
  reach the callback of a later, different one. Typed into the fresh example shell, the
  line \<open>"" "" x\<close> has the third argument \<open>x\<close>; typed after the line \<open>abcdefgh\<close> it has
  the third argument \<open>xh\<close>, because \<open>argv[2]\<close> points at read index 6 and the \<open>h\<close> of
  the earlier line is still at index 7.
\<close>

lemma earlier_line_reaches_callback:
  "feed example_config example_shell (bytes_of ''\"\" \"\" x'' @ [0x0A])
     = Inr (map (\<lambda>x. Print [x]) (bytes_of ''\"\" \"\" x'' @ [0x0A])
              @ [Callback 3 [Some 0, Some 3, Some 6] [0, 0, 0x78, 0, 0x22, 0x20, 0x78, 0, 0],
                 Print [0x25], Print [0x20]],
            example_shell\<lparr>buffer := [0, 0, 0x78, 0, 0x22, 0x20, 0x78, 0, 0],
                          argv := [Some 0, Some 3, Some 6]\<rparr>)
   \<and> arg_string (example_shell\<lparr>buffer := [0, 0, 0x78, 0, 0x22, 0x20, 0x78, 0, 0],
                                argv := [Some 0, Some 3, Some 6]\<rparr>) 2 = Some (bytes_of ''x'')
   \<and> feed example_config example_shell (bytes_of ''abcdefgh'' @ [0x0A])
     = Inr (map (\<lambda>x. Print [x]) (bytes_of ''abcdefgh'' @ [0x0A])
              @ [Callback 1 [Some 0, None, None] (bytes_of ''abcdefgh'' @ [0]),
                 Print [0x25], Print [0x20]],
            example_shell\<lparr>buffer := bytes_of ''abcdefgh'' @ [0], argv := [Some 0, None, None]\<rparr>)
   \<and> feed example_config
         (example_shell\<lparr>buffer := bytes_of ''abcdefgh'' @ [0], argv := [Some 0, None, None]\<rparr>)
         (bytes_of ''\"\" \"\" x'' @ [0x0A])
     = Inr (map (\<lambda>x. Print [x]) (bytes_of ''\"\" \"\" x'' @ [0x0A])
              @ [Callback 3 [Some 0, Some 3, Some 6] [0, 0, 0x78, 0, 0x22, 0x20, 0x78, 0x68, 0],
                 Print [0x25], Print [0x20]],
            example_shell\<lparr>buffer := [0, 0, 0x78, 0, 0x22, 0x20, 0x78, 0x68, 0],
                          argv := [Some 0, Some 3, Some 6]\<rparr>)
   \<and> arg_string (example_shell\<lparr>buffer := [0, 0, 0x78, 0, 0x22, 0x20, 0x78, 0x68, 0],
                                argv := [Some 0, Some 3, Some 6]\<rparr>) 2 = Some (bytes_of ''xh'')"
  by code_simp

end
